theory Spec2Isabelle
  imports Main
begin

text \<open>
  A shallow embedding of the Go package \<open>winminer\<close>, a client of the WinMiner live API:
  the relevance check on message envelopes, the decoders of the \<open>StatusChanged\<close> and
  \<open>SetSystemInfo\<close> messages, the live state that the decoded messages are applied to,
  the nonces of the session handshake and of the protocol ping, and the closing of a
  session. Each definition follows the source function of the same name.
\<close>

section \<open>Go values shared by the whole package\<close>

text \<open>
  A Go call either returns or panics (an index or slice expression out of range, a write
  to a nil map, closing a closed channel). A panic is a value of the model, never an
  unspecified result.
\<close>

datatype 'a outcome = Returns 'a | Panics

text \<open>The mining status constants of the package.\<close>

definition StatusMining :: int where
  "StatusMining = 8"

definition StatusStoppingToo :: int where
  "StatusStoppingToo = 10"

definition StatusStopping :: int where
  "StatusStopping = 0"

definition StatusStarting1 :: int where
  "StatusStarting1 = 2"

definition StatusStarting2 :: int where
  "StatusStarting2 = 1"

definition StatusStarting3 :: int where
  "StatusStarting3 = 5"

definition StatusStarting4 :: int where
  "StatusStarting4 = 6"

text \<open>
  Go strings are byte sequences; \<open>s[:n]\<close> panics when \<open>n\<close> exceeds the length.
\<close>

definition slice_to :: "string \<Rightarrow> nat \<Rightarrow> string outcome" where
  "slice_to s n = (if n \<le> length s then Returns (take n s) else Panics)"

text \<open>
  \<open>strings.Split(s, sep)\<close> for a one-byte separator: the substrings between the
  separators, one more than there are separators (so the empty string splits into one
  empty part).
\<close>

fun Split :: "string \<Rightarrow> char \<Rightarrow> string list" where
  "Split [] sep = [[]]"
| "Split (c # cs) sep =
     (if c = sep then [] # Split cs sep
      else (case Split cs sep of [] \<Rightarrow> [[c]] | p # ps \<Rightarrow> (c # p) # ps))"

text \<open>
  \<open>strconv.Atoi\<close>: an optional sign, then decimal digits only; a syntax error on
  anything else, a range error outside the 64-bit \<open>int\<close>. The digits are scanned
  left to right, as \<open>strconv.ParseUint\<close> does, so the first offending byte decides
  which error is reported.
\<close>

datatype NumError = ErrSyntax | ErrRange

definition is_digit :: "char \<Rightarrow> bool" where
  "is_digit c \<longleftrightarrow> 48 \<le> (of_char c :: nat) \<and> (of_char c :: nat) \<le> 57"

definition digit_val :: "char \<Rightarrow> nat" where
  "digit_val c = of_char c - 48"

fun parse_digits :: "nat \<Rightarrow> string \<Rightarrow> NumError + nat" where
  "parse_digits n [] = Inr n"
| "parse_digits n (c # cs) =
     (if \<not> is_digit c then Inl ErrSyntax
      else if 10 * n + digit_val c \<ge> 2 ^ 64 then Inl ErrRange
      else parse_digits (10 * n + digit_val c) cs)"

definition strip_sign :: "string \<Rightarrow> bool \<times> string" where
  "strip_sign s =
     (case s of
        [] \<Rightarrow> (False, [])
      | c # cs \<Rightarrow>
          if c = CHR ''-'' then (True, cs)
          else if c = CHR ''+'' then (False, cs)
          else (False, s))"

definition Atoi :: "string \<Rightarrow> NumError + int" where
  "Atoi s =
     (case strip_sign s of
        (neg, ds) \<Rightarrow>
          if ds = [] then Inl ErrSyntax
          else (case parse_digits 0 ds of
                  Inl e \<Rightarrow> Inl e
                | Inr un \<Rightarrow>
                    if \<not> neg \<and> un \<ge> 2 ^ 63 then Inl ErrRange
                    else if neg \<and> un > 2 ^ 63 then Inl ErrRange
                    else Inr (if neg then - int un else int un)))"

section \<open>Envelope codec\<close>

text \<open>
  \<open>json.RawMessage\<close> is a byte slice; \<open>None\<close> is the nil slice.
\<close>

type_synonym RawJSON = "string option"

record RawMessage =
  Host :: string
  Method :: string
  Arguments :: "RawJSON list"

record RawMessageContainer =
  Channel :: string
  Messages :: "RawMessage list"

text \<open>
  \<open>RawMessageContainer.isInteresting\<close>. The two log lines have no effect on the
  result and are left out. The index expressions \<open>split[2]\<close> and \<open>split[3]\<close> are in
  range once the length is 5; the slice expressions \<open>[:1]\<close> are not guarded by the
  source and panic on an empty part.
\<close>

definition isInteresting :: "RawMessageContainer \<Rightarrow> bool outcome" where
  "isInteresting c =
     (let split = Split (Channel c) CHR '',''
      in if length split \<noteq> 5 then Returns False
         else (case slice_to (split ! 2) 1 of
                 Panics \<Rightarrow> Panics
               | Returns p1 \<Rightarrow>
                   (case Atoi p1 of
                      Inl err \<Rightarrow> Returns False
                    | Inr id1 \<Rightarrow>
                        (case slice_to (split ! 3) 1 of
                           Panics \<Rightarrow> Panics
                         | Returns p2 \<Rightarrow>
                             (case Atoi p2 of
                                Inl err \<Rightarrow> Returns False
                              | Inr id2 \<Rightarrow> Returns (id1 = 2 \<and> id2 = 2))))))"

section \<open>Message decoders\<close>

text \<open>
  Go errors as values. \<open>New\<close> is \<open>errors.New\<close>, \<open>Wrap\<close> is \<open>errors.Wrap\<close> (the
  cause first, the added message second, as in the source), \<open>NotAMessage\<close> and
  \<open>ExpectedArguments\<close> are the two \<open>fmt.Errorf\<close> results of
  \<open>checkMethodAndArgCount\<close>, and \<open>UnmarshalError\<close> is whatever \<open>json.Unmarshal\<close> reports.
\<close>

datatype error =
    New string
  | NotAMessage string
  | ExpectedArguments nat nat
  | UnmarshalError string
  | Wrap error string

fun show_nat :: "nat \<Rightarrow> string" where
  "show_nat n =
     (if n < 10 then [char_of (48 + n)]
      else show_nat (n div 10) @ [char_of (48 + n mod 10)])"

declare show_nat.simps [simp del]

text \<open>The text of an error, as its \<open>Error()\<close> method prints it.\<close>

fun Error :: "error \<Rightarrow> string" where
  "Error (New msg) = msg"
| "Error (NotAMessage method) = ''not a '' @ method @ '' message''"
| "Error (ExpectedArguments argCount got) =
     ''expected '' @ show_nat argCount @ '' arguments, got '' @ show_nat got"
| "Error (UnmarshalError msg) = msg"
| "Error (Wrap cause msg) = msg @ '': '' @ Error cause"

definition MethodSetSystemInfo :: string where
  "MethodSetSystemInfo = ''SetSystemInfo''"

definition MethodStatusChanged :: string where
  "MethodStatusChanged = ''StatusChanged''"

text \<open>
  \<open>decimal.Decimal\<close> of the shopspring library: a coefficient and a decimal exponent.
\<close>

type_synonym Decimal = "int \<times> int"

text \<open>
  \<open>DeviceStatus\<close>, \<open>DeviceEntry\<close> and \<open>MachineEntry\<close>. Three structs of the source have
  a field \<open>Status\<close>; a record field name is global, so \<open>DeviceEntry\<close> keeps \<open>Status\<close>,
  the numeric \<open>DeviceStatus.Status\<close> is \<open>Code\<close>, and the field of the status-change
  message is \<open>ChangedStatus\<close>.
\<close>

record DeviceStatus =
  Code :: int
  Tags :: "string list"
  Hashrates :: "Decimal list"
  Profits :: "Decimal list"
  Currency :: string
  ExtraData :: string

record DeviceEntry =
  ID :: string
  Enabled :: bool
  Name :: string
  Type :: string
  Status :: DeviceStatus

text \<open>
  \<open>MachineEntry.Devices\<close> is a Go slice: a window on a backing array that every copy of
  the struct shares. \<open>LiveState.Update\<close> writes through such a copy, so the arrays live
  in a store: a cell address holds one \<open>DeviceEntry\<close>, and a slice is the list of the
  cells it spans, in order. The cells of one slice are pairwise distinct; the slices of
  two machines may share cells.
\<close>

type_synonym addr = nat

type_synonym heap = "addr \<Rightarrow> DeviceEntry"

record MachineEntry =
  MachineName :: string
  SID :: string
  ClientVersion :: string
  IsAdmin :: bool
  IsPortable :: bool
  Devices :: "addr list"
  Key :: string

text \<open>The devices a machine shows in a given store.\<close>

definition devices_of :: "heap \<Rightarrow> MachineEntry \<Rightarrow> DeviceEntry list" where
  "devices_of h m = map h (Devices m)"

record StatusChangedMessage =
  MachineSID :: string
  DeviceID :: string
  ChangedStatus :: DeviceStatus

text \<open>
  \<open>json.Unmarshal\<close> belongs to the standard library: the decoders for the four target
  types the package decodes into are parameters of the model. A decoded machine is the
  struct; the cells of its \<open>Devices\<close> are the array the decoder has filled.
\<close>

record Unmarshal =
  as_string :: "string \<Rightarrow> error + string"
  as_bool :: "string \<Rightarrow> error + bool"
  as_DeviceStatus :: "string \<Rightarrow> error + DeviceStatus"
  as_MachineEntry :: "string \<Rightarrow> error + MachineEntry"

text \<open>\<open>json.RawMessage.MarshalJSON\<close>: the bytes themselves, \<open>null\<close> for the nil slice.\<close>

definition MarshalJSON :: "RawJSON \<Rightarrow> error + string" where
  "MarshalJSON m = (case m of None \<Rightarrow> Inr ''null'' | Some b \<Rightarrow> Inr b)"

definition parseString :: "Unmarshal \<Rightarrow> RawJSON \<Rightarrow> error + string" where
  "parseString u m =
     (case MarshalJSON m of
        Inl err \<Rightarrow> Inl (Wrap err ''unable to marshal JSON'')
      | Inr bb \<Rightarrow>
          (case as_string u bb of
             Inl err \<Rightarrow> Inl (Wrap err ''unable to unmarshal as string'')
           | Inr s \<Rightarrow> Inr s))"

text \<open>\<open>checkMethodAndArgCount\<close>: \<open>None\<close> is the nil error.\<close>

definition checkMethodAndArgCount :: "RawMessage \<Rightarrow> string \<Rightarrow> nat \<Rightarrow> error option" where
  "checkMethodAndArgCount msg method argCount =
     (if Method msg \<noteq> method then Some (NotAMessage method)
      else if length (Arguments msg) \<noteq> argCount
        then Some (ExpectedArguments argCount (length (Arguments msg)))
      else None)"

text \<open>
  \<open>ParseStatusChangedMessage\<close>. \<open>Inl\<close> is the Go result \<open>(nil, err)\<close>, \<open>Inr\<close> the
  result \<open>(&msg, nil)\<close>. The three index expressions are reached only after the argument
  count was checked to be 3.
\<close>

definition ParseStatusChangedMessage ::
    "Unmarshal \<Rightarrow> RawMessage \<Rightarrow> error + StatusChangedMessage" where
  "ParseStatusChangedMessage u message =
     (case checkMethodAndArgCount message MethodStatusChanged 3 of
        Some err \<Rightarrow> Inl (Wrap err ''invalid message'')
      | None \<Rightarrow>
          (case parseString u (Arguments message ! 0) of
             Inl err \<Rightarrow> Inl (Wrap err ''unable to decode'')
           | Inr machineSID \<Rightarrow>
               (case parseString u (Arguments message ! 1) of
                  Inl err \<Rightarrow> Inl (Wrap err ''unable to decode'')
                | Inr deviceID \<Rightarrow>
                    (case MarshalJSON (Arguments message ! 2) of
                       Inl err \<Rightarrow> Inl (Wrap err ''unable to marshal JSON'')
                     | Inr bb3 \<Rightarrow>
                         (case as_DeviceStatus u bb3 of
                            Inl err \<Rightarrow> Inl (Wrap err ''unable to decode'')
                          | Inr s \<Rightarrow>
                              Inr \<lparr>MachineSID = machineSID, DeviceID = deviceID,
                                   ChangedStatus = s\<rparr>)))))"

text \<open>
  \<open>ParseSystemInfoMessage\<close>. The error of \<open>MarshalJSON\<close> is dropped by the source
  (\<open>bb, _ := ...\<close>), which leaves \<open>bb\<close> nil, the empty byte string, in that case.
\<close>

definition ParseSystemInfoMessage ::
    "Unmarshal \<Rightarrow> RawMessage \<Rightarrow> error + MachineEntry list" where
  "ParseSystemInfoMessage u message =
     (if Method message \<noteq> MethodSetSystemInfo then Inl (New ''not a SystemInfo message'')
      else if length (Arguments message) \<noteq> 3 then Inl (New ''expected 3 arguments'')
      else (let bb = (case MarshalJSON (Arguments message ! 2) of
                        Inl err \<Rightarrow> []
                      | Inr b \<Rightarrow> b)
            in case as_MachineEntry u bb of
                 Inl err \<Rightarrow> Inl (Wrap err ''unable to decode'')
               | Inr m \<Rightarrow> Inr [m]))"

section \<open>Live state reconciler\<close>

text \<open>
  Modelled from the spec: the declaration of \<open>StatusChangeContainer\<close> is not among the
  sources. \<open>Update\<close> reads its fields \<open>MachineSID\<close>, \<open>DeviceID\<close> and \<open>Status\<close>, the
  machine id, device id and status of the spec's \<open>apply_status_change\<close>; these are the
  fields of \<open>StatusChangedMessage\<close>, which the example program passes to the state.
\<close>

type_synonym StatusChangeContainer = StatusChangedMessage

text \<open>
  \<open>time.Time\<close>: an instant, in nanoseconds. \<open>time.Now()\<close> is a parameter of \<open>Update\<close>.
\<close>

type_synonym Time = int

text \<open>
  \<open>LiveState\<close>. The map is \<open>None\<close> for Go's nil map (the zero value of the struct),
  which can be read but not written. The mutex has no effect on a sequence of calls and
  is left out.
\<close>

record LiveState =
  machines :: "MachineEntry list"
  devicesLastUpdated :: "(string \<rightharpoonup> Time) option"

definition NewLiveState :: LiveState where
  "NewLiveState = \<lparr>machines = [], devicesLastUpdated = Some Map.empty\<rparr>"

definition SetSystemInfo :: "MachineEntry list \<Rightarrow> LiveState \<Rightarrow> LiveState" where
  "SetSystemInfo entries s = s\<lparr>machines := entries, devicesLastUpdated := Some Map.empty\<rparr>"

text \<open>
  The loops of \<open>AddMachine\<close> and \<open>Update\<close> range over a slice and leave at the first
  element that matches: \<open>first_index\<close> is the index the loop stops at, \<open>None\<close> when
  it runs to the end.
\<close>

fun first_index :: "('a \<Rightarrow> bool) \<Rightarrow> 'a list \<Rightarrow> nat option" where
  "first_index P [] = None"
| "first_index P (x # xs) =
     (if P x then Some 0 else map_option Suc (first_index P xs))"

definition AddMachine :: "MachineEntry \<Rightarrow> LiveState \<Rightarrow> LiveState" where
  "AddMachine entry s =
     (case first_index (\<lambda>m. SID m = SID entry) (machines s) of
        Some i \<Rightarrow> s\<lparr>machines := (machines s)[i := entry]\<rparr>
      | None \<Rightarrow> s\<lparr>machines := machines s @ [entry]\<rparr>)"

text \<open>
  \<open>Update\<close>, on a store and a state. It returns the error (\<open>None\<close> for nil), the store
  and the state. \<open>m\<close> and \<open>d\<close> are the loop variables, copies of the elements;
  \<open>m.Devices[j] = d\<close> writes the cell \<open>Devices m ! j\<close> of the shared array,
  \<open>s.machines[i] = m\<close> writes the copy back, and the assignment to the map panics on a
  nil map (after the two writes, which a panic of the model does not keep).
\<close>

definition Update ::
    "Time \<Rightarrow> StatusChangeContainer \<Rightarrow> heap \<times> LiveState
      \<Rightarrow> (error option \<times> heap \<times> LiveState) outcome" where
  "Update now container w =
     (case w of (h, s) \<Rightarrow>
        (case first_index (\<lambda>m. SID m = MachineSID container) (machines s) of
           None \<Rightarrow> Returns (Some (New ''machine not found''), h, s)
         | Some i \<Rightarrow>
             (let m = machines s ! i
              in case first_index (\<lambda>a. ID (h a) = DeviceID container) (Devices m) of
                   None \<Rightarrow> Returns (Some (New ''device not found''), h, s)
                 | Some j \<Rightarrow>
                     (let d = (h (Devices m ! j))\<lparr>Status := ChangedStatus container\<rparr>;
                          h' = h(Devices m ! j := d);
                          machines' = (machines s)[i := m]
                      in case devicesLastUpdated s of
                           None \<Rightarrow> Panics
                         | Some t \<Rightarrow>
                             Returns (None, h',
                               s\<lparr>machines := machines',
                                 devicesLastUpdated :=
                                   Some (t(DeviceID container \<mapsto> now))\<rparr>)))))"

text \<open>
  Sequences of operations on one state. A panic ends the sequence; an error returned by
  \<open>Update\<close> does not (the caller goes on with the state as it is).
\<close>

datatype op =
    OpSetSystemInfo "MachineEntry list"
  | OpAddMachine MachineEntry
  | OpUpdate Time StatusChangeContainer

fun apply_op :: "op \<Rightarrow> heap \<times> LiveState \<Rightarrow> (heap \<times> LiveState) outcome" where
  "apply_op (OpSetSystemInfo entries) (h, s) = Returns (h, SetSystemInfo entries s)"
| "apply_op (OpAddMachine entry) (h, s) = Returns (h, AddMachine entry s)"
| "apply_op (OpUpdate now container) (h, s) =
     (case Update now container (h, s) of
        Panics \<Rightarrow> Panics
      | Returns (err, h', s') \<Rightarrow> Returns (h', s'))"

fun run :: "op list \<Rightarrow> heap \<times> LiveState \<Rightarrow> (heap \<times> LiveState) outcome" where
  "run [] w = Returns w"
| "run (x # xs) w =
     (case apply_op x w of
        Panics \<Rightarrow> Panics
      | Returns w' \<Rightarrow> run xs w')"

text \<open>
  The machines that hold a device with a given id, by their index in the list, and the
  cross-reference property of the spec's data model: every key of the timestamp map is
  the id of a device of exactly one machine.
\<close>

definition holds_device :: "heap \<Rightarrow> MachineEntry \<Rightarrow> string \<Rightarrow> bool" where
  "holds_device h m d \<longleftrightarrow> d \<in> set (map ID (devices_of h m))"

definition holders :: "heap \<Rightarrow> LiveState \<Rightarrow> string \<Rightarrow> nat list" where
  "holders h s d = filter (\<lambda>i. holds_device h (machines s ! i) d) [0..<length (machines s)]"

definition timestamps :: "LiveState \<Rightarrow> string \<rightharpoonup> Time" where
  "timestamps s = (case devicesLastUpdated s of None \<Rightarrow> Map.empty | Some t \<Rightarrow> t)"

definition keys_in_exactly_one :: "heap \<times> LiveState \<Rightarrow> bool" where
  "keys_in_exactly_one w \<longleftrightarrow>
     (\<forall>d \<in> dom (timestamps (snd w)). length (holders (fst w) (snd w) d) = 1)"

definition keys_in_some :: "heap \<times> LiveState \<Rightarrow> bool" where
  "keys_in_some w \<longleftrightarrow>
     (\<forall>d \<in> dom (timestamps (snd w)). holders (fst w) (snd w) d \<noteq> [])"

text \<open>
  The invariant of the reconciler: the map is allocated, and each of its keys is the id
  of a device of some machine.
\<close>

definition linked :: "heap \<times> LiveState \<Rightarrow> bool" where
  "linked w \<longleftrightarrow> devicesLastUpdated (snd w) \<noteq> None \<and> keys_in_some w"

text \<open>
  A sequence in which every \<open>AddMachine\<close> names a machine id that is not in the list at
  that point, so that it appends and overwrites nothing.
\<close>

fun adds_append :: "op list \<Rightarrow> heap \<times> LiveState \<Rightarrow> bool" where
  "adds_append [] w = True"
| "adds_append (x # xs) w =
     ((case x of
         OpAddMachine entry \<Rightarrow> SID entry \<notin> set (map SID (machines (snd w)))
       | _ \<Rightarrow> True) \<and>
      (case apply_op x w of
         Panics \<Rightarrow> True
       | Returns w' \<Rightarrow> adds_append xs w'))"

section \<open>Session handshake and protocol ping\<close>

text \<open>
  The nonce is an \<open>int64\<close>: an integer in \<open>[-2^63, 2^63)\<close>, with the wrap-around of
  \<open>nonce++\<close> written out. Go's \<open>/\<close> truncates towards zero.
\<close>

definition wrap64 :: "int \<Rightarrow> int" where
  "wrap64 x = (x + 2 ^ 63) mod 2 ^ 64 - 2 ^ 63"

definition go_quo :: "int \<Rightarrow> int \<Rightarrow> int" where
  "go_quo a b = (if 0 \<le> a then a div b else - ((- a) div b))"

text \<open>
  \<open>time.Now().UnixNano() / 1000000\<close>: the clock is a parameter, read as an \<open>int64\<close>.
  The divisor is positive, the only case \<open>go_quo\<close> is used for.
\<close>

definition initial_nonce :: "int \<Rightarrow> int" where
  "initial_nonce clock = go_quo (wrap64 clock) 1000000"

record Auth2Response =
  Auth2Host :: string
  Auth2Token :: string

record NegotiateResponse =
  URL :: string
  ConnectionToken :: string
  ConnectionID :: string
  KeepAliveTimeout :: Decimal
  DisconnectTimeout :: Decimal
  ConnectionTimeout :: Decimal
  TryWebSockets :: bool
  ProtocolVersion :: string
  TransportConnectionTimeout :: Decimal
  LongPollDelay :: Decimal

text \<open>
  The five methods of \<open>lowLevelClient\<close> the handshake calls talk to the server; what
  they answer is a parameter. \<open>connect\<close> answers with a connection or an error, and
  only the error matters here.
\<close>

record lowLevelClient =
  auth2 :: "error + Auth2Response"
  negotiate :: "int \<Rightarrow> string \<Rightarrow> string \<Rightarrow> error + NegotiateResponse"
  connect :: "string \<Rightarrow> string \<Rightarrow> string \<Rightarrow> error option"
  start :: "int \<Rightarrow> string \<Rightarrow> string \<Rightarrow> string \<Rightarrow> error option"
  ping :: "int \<Rightarrow> string \<Rightarrow> string \<Rightarrow> error option"

text \<open>The calls a session makes, with their arguments, in the order it makes them.\<close>

datatype call =
    CallAuth2
  | CallNegotiate int string string
  | CallConnect string string string
  | CallStart int string string string
  | CallPing int string string

text \<open>
  The protocol-ping goroutine. Each round of its loop is one \<open>select\<close>: the scheduler
  picks the closed signal (the goroutine returns) or the ticker (the goroutine increments
  the nonce and pings). A failed ping is sent on the unbuffered error channel, and the
  goroutine goes on only if a reader receives it: the flag of \<open>ChoseTick\<close> says whether
  one does. An exhausted schedule is the end of the observation.
\<close>

datatype select_case = ChoseClosed | ChoseTick bool

fun ping_loop ::
    "lowLevelClient \<Rightarrow> string \<Rightarrow> string \<Rightarrow> int \<Rightarrow> select_case list \<Rightarrow> call list" where
  "ping_loop c auth2Token hubBaseURL nonce [] = []"
| "ping_loop c auth2Token hubBaseURL nonce (ChoseClosed # sched) = []"
| "ping_loop c auth2Token hubBaseURL nonce (ChoseTick received # sched) =
     CallPing (wrap64 (nonce + 1)) auth2Token hubBaseURL #
       (case ping c (wrap64 (nonce + 1)) auth2Token hubBaseURL of
          None \<Rightarrow> ping_loop c auth2Token hubBaseURL (wrap64 (nonce + 1)) sched
        | Some err \<Rightarrow>
            if received then ping_loop c auth2Token hubBaseURL (wrap64 (nonce + 1)) sched
            else [])"

text \<open>
  \<open>newWebsocketClient\<close> up to the point where it starts the two goroutines: the calls
  it made, and either the wrapped error of the step that failed or what the ping
  goroutine captures (the nonce, the token and the host).
\<close>

definition newWebsocketClient ::
    "lowLevelClient \<Rightarrow> int \<Rightarrow> call list \<times> (error + int \<times> string \<times> string)" where
  "newWebsocketClient c clock =
     (let nonce = initial_nonce clock
      in case auth2 c of
           Inl err \<Rightarrow> ([CallAuth2], Inl (Wrap err ''unable to auth2''))
         | Inr auth2Resp \<Rightarrow>
             (let hubBaseURL = Auth2Host auth2Resp;
                  auth2Token = Auth2Token auth2Resp
              in case negotiate c nonce auth2Token hubBaseURL of
                   Inl err \<Rightarrow>
                     ([CallAuth2, CallNegotiate nonce auth2Token hubBaseURL],
                      Inl (Wrap err ''unable to negotiate''))
                 | Inr negResp \<Rightarrow>
                     (let connectionToken = ConnectionToken negResp;
                          nonce1 = wrap64 (nonce + 1)
                      in case connect c auth2Token hubBaseURL connectionToken of
                           Some err \<Rightarrow>
                             ([CallAuth2, CallNegotiate nonce auth2Token hubBaseURL,
                               CallConnect auth2Token hubBaseURL connectionToken],
                              Inl (Wrap err ''unable to connect''))
                         | None \<Rightarrow>
                             (case start c nonce1 auth2Token hubBaseURL connectionToken of
                                Some err \<Rightarrow>
                                  ([CallAuth2, CallNegotiate nonce auth2Token hubBaseURL,
                                    CallConnect auth2Token hubBaseURL connectionToken,
                                    CallStart nonce1 auth2Token hubBaseURL connectionToken],
                                   Inl (Wrap err ''unable to start''))
                              | None \<Rightarrow>
                                  ([CallAuth2, CallNegotiate nonce auth2Token hubBaseURL,
                                    CallConnect auth2Token hubBaseURL connectionToken,
                                    CallStart nonce1 auth2Token hubBaseURL connectionToken],
                                   Inr (nonce1, auth2Token, hubBaseURL))))))"

text \<open>All calls of one session: the handshake, then the pings of the goroutine.\<close>

definition session_calls :: "lowLevelClient \<Rightarrow> int \<Rightarrow> select_case list \<Rightarrow> call list" where
  "session_calls c clock sched =
     (case newWebsocketClient c clock of
        (calls, Inl err) \<Rightarrow> calls
      | (calls, Inr (nonce, auth2Token, hubBaseURL)) \<Rightarrow>
          calls @ ping_loop c auth2Token hubBaseURL nonce sched)"

fun nonce_of :: "call \<Rightarrow> int option" where
  "nonce_of CallAuth2 = None"
| "nonce_of (CallNegotiate n t h) = Some n"
| "nonce_of (CallConnect t h k) = None"
| "nonce_of (CallStart n t h k) = Some n"
| "nonce_of (CallPing n t h) = Some n"

fun nonces :: "call list \<Rightarrow> int list" where
  "nonces [] = []"
| "nonces (x # calls) =
     (case nonce_of x of
        None \<Rightarrow> nonces calls
      | Some n \<Rightarrow> n # nonces calls)"

text \<open>The kind of the call that carries the \<open>i\<close>-th nonce of a session.\<close>

datatype call_kind = KNegotiate | KStart | KPing | KOther

fun kind_of :: "call \<Rightarrow> call_kind" where
  "kind_of CallAuth2 = KOther"
| "kind_of (CallNegotiate n t h) = KNegotiate"
| "kind_of (CallConnect t h k) = KOther"
| "kind_of (CallStart n t h k) = KStart"
| "kind_of (CallPing n t h) = KPing"

definition nonce_calls :: "call list \<Rightarrow> call_kind list" where
  "nonce_calls calls = map kind_of (filter (\<lambda>x. nonce_of x \<noteq> None) calls)"

section \<open>Closing a session\<close>

text \<open>
  What \<open>close\<close> reads and writes of a \<open>WebsocketClient\<close>: the two channels (open or
  closed), the transport, and the two goroutines the wait group counts. A goroutine is
  in its \<open>select\<close> loop and will take the closed case once it is there; or it is at
  the send of a failed keep-alive on the unbuffered error channel, or on its way to it
  (it took the ticker in its last \<open>select\<close>), where it stays until a \<open>Read\<close>
  receives the error; or it has returned (its deferred \<open>wg.Done\<close> has run).
\<close>

datatype chan = Open | Closed

datatype goroutine = Selecting | SendingErr | Finished

record WebsocketClient =
  closed :: chan
  err :: chan
  ws_closed :: bool
  pinger :: goroutine
  keepalive :: goroutine

text \<open>The client \<open>newWebsocketClient\<close> returns when the handshake succeeds.\<close>

definition new_client :: WebsocketClient where
  "new_client =
     \<lparr>closed = Open, err = Open, ws_closed = False,
      pinger = Selecting, keepalive = Selecting\<rparr>"

text \<open>Go's \<open>close(ch)\<close> panics on a channel that is closed already.\<close>

definition close_chan :: "chan \<Rightarrow> chan outcome" where
  "close_chan ch = (case ch of Open \<Rightarrow> Returns Closed | Closed \<Rightarrow> Panics)"

text \<open>
  \<open>c.wg.Wait()\<close> once the closed signal is given: a goroutine in its loop takes the
  closed case and returns; one at the send on the error channel never does, since
  \<open>close\<close> receives nothing, and then \<open>Wait\<close> does not return (\<open>None\<close>).
\<close>

definition wg_Wait :: "WebsocketClient \<Rightarrow> WebsocketClient option" where
  "wg_Wait c =
     (if pinger c = SendingErr \<or> keepalive c = SendingErr then None
      else Some (c\<lparr>pinger := Finished, keepalive := Finished\<rparr>))"

text \<open>
  \<open>WebsocketClient.close\<close>: \<open>None\<close> when it does not return, otherwise the client as
  it leaves it, or a panic.
\<close>

definition close :: "WebsocketClient \<Rightarrow> WebsocketClient outcome option" where
  "close c =
     (case closed c of
        Closed \<Rightarrow> Some (Returns c)
      | Open \<Rightarrow>
          (case close_chan (closed c) of
             Panics \<Rightarrow> Some Panics
           | Returns cl \<Rightarrow>
               (case wg_Wait (c\<lparr>closed := cl\<rparr>) of
                  None \<Rightarrow> None
                | Some c1 \<Rightarrow>
                    (case close_chan (err c1) of
                       Panics \<Rightarrow> Some Panics
                     | Returns e \<Rightarrow> Some (Returns (c1\<lparr>ws_closed := True, err := e\<rparr>))))))"

text \<open>
  The states a session goes through: it starts as \<open>new_client\<close>; a keep-alive of either
  goroutine fails and the goroutine goes to its send; a \<open>Read\<close> receives the error and
  the goroutine goes back to its loop; \<open>close\<close> is called and returns.
\<close>

inductive session :: "WebsocketClient \<Rightarrow> bool" where
  session_new: "session new_client"
| session_ping_failed:
    "session c \<Longrightarrow> pinger c = Selecting \<Longrightarrow> session (c\<lparr>pinger := SendingErr\<rparr>)"
| session_keepalive_failed:
    "session c \<Longrightarrow> keepalive c = Selecting \<Longrightarrow> session (c\<lparr>keepalive := SendingErr\<rparr>)"
| session_ping_err_read:
    "session c \<Longrightarrow> pinger c = SendingErr \<Longrightarrow> session (c\<lparr>pinger := Selecting\<rparr>)"
| session_keepalive_err_read:
    "session c \<Longrightarrow> keepalive c = SendingErr \<Longrightarrow> session (c\<lparr>keepalive := Selecting\<rparr>)"
| session_close:
    "session c \<Longrightarrow> close c = Some (Returns c') \<Longrightarrow> session c'"

code_pred session .

section \<open>Example data\<close>

text \<open>
  Concrete values for the instances below: two device statuses, devices and machines by
  name, a status change, and a store whose cells 0 and 2 both hold a device with the id
  \<open>gpu0\<close> and whose cell 1 holds \<open>gpu1\<close>.
\<close>

definition idle :: DeviceStatus where
  "idle = \<lparr>Code = 0, Tags = [], Hashrates = [], Profits = [], Currency = [], ExtraData = []\<rparr>"

definition mining :: DeviceStatus where
  "mining =
     \<lparr>Code = StatusMining, Tags = [''eth''], Hashrates = [(2950, -2)], Profits = [(13, -1)],
      Currency = ''ETH'', ExtraData = []\<rparr>"

definition device :: "string \<Rightarrow> DeviceEntry" where
  "device name = \<lparr>ID = name, Enabled = True, Name = name, Type = ''GPU'', Status = idle\<rparr>"

definition machine :: "string \<Rightarrow> addr list \<Rightarrow> MachineEntry" where
  "machine sid cells =
     \<lparr>MachineName = sid, SID = sid, ClientVersion = ''1.0'', IsAdmin = False,
      IsPortable = False, Devices = cells, Key = []\<rparr>"

definition example_heap :: heap where
  "example_heap a =
     (if a = 0 then device ''gpu0''
      else if a = 1 then device ''gpu1''
      else if a = 2 then device ''gpu0''
      else device ''spare'')"

definition change :: "string \<Rightarrow> string \<Rightarrow> StatusChangeContainer" where
  "change sid dev = \<lparr>MachineSID = sid, DeviceID = dev, ChangedStatus = mining\<rparr>"

text \<open>
  A decoder and a client for the instances: the decoder takes the bytes of a machine
  record for the machine's name, and the server of the client accepts every call.
\<close>

definition example_Unmarshal :: Unmarshal where
  "example_Unmarshal =
     \<lparr>as_string = Inr,
      as_bool = (\<lambda>b. if b = ''true'' then Inr True
                     else if b = ''false'' then Inr False
                     else Inl (UnmarshalError ''not a bool'')),
      as_DeviceStatus = (\<lambda>b. if b = ''mining'' then Inr mining
                             else Inl (UnmarshalError ''not a status'')),
      as_MachineEntry = (\<lambda>b. if b = ''null'' then Inl (UnmarshalError ''not a machine'')
                             else Inr (machine b [0, 1]))\<rparr>"

definition example_client :: lowLevelClient where
  "example_client =
     \<lparr>auth2 = Inr \<lparr>Auth2Host = ''https://hub.example'', Auth2Token = ''live''\<rparr>,
      negotiate = (\<lambda>nonce token host.
        Inr \<lparr>URL = ''/signalr'', ConnectionToken = ''conn'', ConnectionID = ''id'',
             KeepAliveTimeout = (20, 0), DisconnectTimeout = (30, 0),
             ConnectionTimeout = (110, 0), TryWebSockets = True,
             ProtocolVersion = ''1.5'', TransportConnectionTimeout = (5, 0),
             LongPollDelay = (0, 0)\<rparr>),
      connect = (\<lambda>token host conn. None),
      start = (\<lambda>nonce token host conn. None),
      ping = (\<lambda>nonce token host. None)\<rparr>"

section \<open>Facts about the string helpers\<close>

lemma Split_nonempty: "Split s sep \<noteq> []"
  by (induction s) (auto split: list.splits)

lemma length_Split: "length (Split s sep) = Suc (count_list s sep)"
  by (induction s) (auto simp: Split_nonempty split: list.splits)

lemma Atoi_single:
  "Atoi [c] = (if is_digit c then Inr (int (digit_val c)) else Inl ErrSyntax)"
proof (cases "is_digit c")
  case True
  then have "c \<noteq> CHR ''-''" "c \<noteq> CHR ''+''"
    by (auto simp: is_digit_def)
  moreover from True have "digit_val c < 10"
    by (auto simp: is_digit_def digit_val_def)
  ultimately show ?thesis using True
    by (simp add: Atoi_def strip_sign_def)
next
  case False
  then show ?thesis
    by (auto simp: Atoi_def strip_sign_def)
qed

lemma slice_to_one_Cons: "slice_to (c # cs) 1 = Returns [c]"
  by (simp add: slice_to_def)

lemma slice_to_one_Nil: "slice_to [] 1 = Panics"
  by (simp add: slice_to_def)

section \<open>Facts about the relevance check\<close>

lemma char_of_50: "char_of (50 :: nat) = CHR ''2''"
  by code_simp

lemma digit_val_two: "is_digit c \<Longrightarrow> digit_val c = 2 \<longleftrightarrow> c = CHR ''2''"
proof
  assume d: "is_digit c" and v: "digit_val c = 2"
  then have "(of_char c :: nat) = 50"
    by (simp add: is_digit_def digit_val_def)
  then have "char_of (of_char c :: nat) = (char_of (50 :: nat) :: char)"
    by simp
  then show "c = CHR ''2''"
    by (simp only: char_of_char char_of_50)
next
  assume "c = CHR ''2''"
  then show "digit_val c = 2"
    by (simp add: digit_val_def)
qed

lemma is_digit_two: "is_digit CHR ''2''"
  by (simp add: is_digit_def)

lemma isInteresting_five:
  "Split (Channel c) CHR '','' = [a, b, p3, p4, e] \<Longrightarrow>
   isInteresting c =
     (case slice_to p3 1 of
        Panics \<Rightarrow> Panics
      | Returns q1 \<Rightarrow>
          (case Atoi q1 of
             Inl bad \<Rightarrow> Returns False
           | Inr id1 \<Rightarrow>
               (case slice_to p4 1 of
                  Panics \<Rightarrow> Panics
                | Returns q2 \<Rightarrow>
                    (case Atoi q2 of
                       Inl bad \<Rightarrow> Returns False
                     | Inr id2 \<Rightarrow> Returns (id1 = 2 \<and> id2 = 2)))))"
  by (simp add: isInteresting_def eval_nat_numeral split: outcome.splits sum.splits)

lemma isInteresting_digits:
  assumes "Split (Channel c) CHR '','' = [a, b, d1 # r3, d2 # r4, e]"
    and "is_digit d1" and "is_digit d2"
  shows "isInteresting c = Returns (d1 = CHR ''2'' \<and> d2 = CHR ''2'')"
proof -
  have "isInteresting c = Returns (int (digit_val d1) = 2 \<and> int (digit_val d2) = 2)"
    using assms by (simp add: isInteresting_five slice_to_def Atoi_single)
  also have "int (digit_val d1) = 2 \<longleftrightarrow> d1 = CHR ''2''"
    using digit_val_two [OF assms(2)] by linarith
  also have "int (digit_val d2) = 2 \<longleftrightarrow> d2 = CHR ''2''"
    using digit_val_two [OF assms(3)] by linarith
  finally show ?thesis .
qed

lemma isInteresting_not_a_digit:
  assumes "Split (Channel c) CHR '','' = [a, b, d1 # r3, p4, e]"
    and "\<not> is_digit d1"
  shows "isInteresting c = Returns False"
  using assms by (simp add: isInteresting_five slice_to_def Atoi_single)

text \<open>
  C4. When the channel does not split into exactly 5 comma-separated parts,
  \<open>isInteresting\<close> returns false. When it splits into 5 parts, it returns true if
  parts 3 and 4 both begin with the digit 2, and false if they begin with any other pair
  of decimal digits.
\<close>

theorem isInteresting_channel_shape:
  "(length (Split (Channel c) CHR '','') \<noteq> 5 \<longrightarrow> isInteresting c = Returns False) \<and>
   (\<forall>a b r3 r4 e.
      Split (Channel c) CHR '','' = [a, b, CHR ''2'' # r3, CHR ''2'' # r4, e]
      \<longrightarrow> isInteresting c = Returns True) \<and>
   (\<forall>a b d1 r3 d2 r4 e.
      Split (Channel c) CHR '','' = [a, b, d1 # r3, d2 # r4, e] \<and>
      is_digit d1 \<and> is_digit d2 \<and> (d1, d2) \<noteq> (CHR ''2'', CHR ''2'')
      \<longrightarrow> isInteresting c = Returns False)"
proof (intro conjI allI impI)
  assume "length (Split (Channel c) CHR '','') \<noteq> 5"
  then show "isInteresting c = Returns False"
    by (simp add: isInteresting_def)
next
  fix a b r3 r4 e
  assume "Split (Channel c) CHR '','' = [a, b, CHR ''2'' # r3, CHR ''2'' # r4, e]"
  then show "isInteresting c = Returns True"
    using isInteresting_digits [of c a b "CHR ''2''" r3 "CHR ''2''" r4 e]
    by (simp add: is_digit_two)
next
  fix a b d1 r3 d2 r4 e
  assume h: "Split (Channel c) CHR '','' = [a, b, d1 # r3, d2 # r4, e] \<and>
      is_digit d1 \<and> is_digit d2 \<and> (d1, d2) \<noteq> (CHR ''2'', CHR ''2'')"
  then show "isInteresting c = Returns False"
    using isInteresting_digits [of c a b d1 r3 d2 r4 e] by auto
qed

theorem isInteresting_channel_shape_witness:
  "isInteresting \<lparr>Channel = ''d-1,0|A'', Messages = []\<rparr> = Returns False \<and>
   isInteresting \<lparr>Channel = ''d-1,0|A,2|B,21|C,x'', Messages = []\<rparr> = Returns True \<and>
   isInteresting \<lparr>Channel = ''d-1,0|A,2|B,3|C,x'', Messages = []\<rparr> = Returns False"
  using isInteresting_channel_shape [of "\<lparr>Channel = ''d-1,0|A'', Messages = []\<rparr>"]
    isInteresting_channel_shape [of "\<lparr>Channel = ''d-1,0|A,2|B,21|C,x'', Messages = []\<rparr>"]
    isInteresting_channel_shape [of "\<lparr>Channel = ''d-1,0|A,2|B,3|C,x'', Messages = []\<rparr>"]
  by (simp add: is_digit_def)

text \<open>
  C3. The relevance check is not total: on a channel of 5 parts whose part 3 or part 4
  is empty, the slice expression \<open>[:1]\<close> panics before \<open>strconv.Atoi\<close> is reached.
  (A part that begins with a byte that is no digit does give false.)
\<close>

theorem isInteresting_empty_part_panics:
  "isInteresting \<lparr>Channel = ''a,b,,2,e'', Messages = []\<rparr> = Panics \<and>
   isInteresting \<lparr>Channel = ''a,b,2,,e'', Messages = []\<rparr> = Panics \<and>
   isInteresting \<lparr>Channel = ''a,b,x,2,e'', Messages = []\<rparr> = Returns False"
  by (simp add: isInteresting_def slice_to_def Atoi_single is_digit_def digit_val_def)

section \<open>Facts about the live state\<close>

lemma first_index_None: "first_index P xs = None \<longleftrightarrow> (\<forall>x \<in> set xs. \<not> P x)"
  by (induction xs) auto

lemma first_index_append:
  "(\<forall>p \<in> set pre. \<not> P p) \<Longrightarrow> P x \<Longrightarrow> first_index P (pre @ x # post) = Some (length pre)"
  by (induction pre) auto

lemma first_index_Some:
  "first_index P xs = Some i \<Longrightarrow> i < length xs \<and> P (xs ! i) \<and> (\<forall>k < i. \<not> P (xs ! k))"
proof (induction xs arbitrary: i)
  case Nil
  then show ?case by simp
next
  case (Cons x xs)
  show ?case
  proof (cases "P x")
    case True
    with Cons.prems show ?thesis by simp
  next
    case False
    with Cons.prems obtain j where j: "first_index P xs = Some j" "i = Suc j"
      by auto
    from Cons.IH [OF j(1)] False j(2) show ?thesis
      by (auto simp: nth_Cons split: nat.splits)
  qed
qed

lemma Update_machine_not_found:
  "\<forall>m \<in> set (machines s). SID m \<noteq> MachineSID c \<Longrightarrow>
   Update now c (h, s) = Returns (Some (New ''machine not found''), h, s)"
proof -
  assume "\<forall>m \<in> set (machines s). SID m \<noteq> MachineSID c"
  then have "first_index (\<lambda>m. SID m = MachineSID c) (machines s) = None"
    by (simp add: first_index_None)
  then show ?thesis
    by (simp add: Update_def)
qed

lemma Update_device_not_found:
  assumes "machines s = pre @ m # post"
    and "\<forall>p \<in> set pre. SID p \<noteq> MachineSID c"
    and "SID m = MachineSID c"
    and "\<forall>a \<in> set (Devices m). ID (h a) \<noteq> DeviceID c"
  shows "Update now c (h, s) = Returns (Some (New ''device not found''), h, s)"
proof -
  have i: "first_index (\<lambda>m. SID m = MachineSID c) (machines s) = Some (length pre)"
    using assms(1-3) by (simp add: first_index_append)
  have j: "first_index (\<lambda>a. ID (h a) = DeviceID c) (Devices m) = None"
    using assms(4) by (simp add: first_index_None)
  have m: "machines s ! length pre = m"
    using assms(1) by simp
  show ?thesis
    by (simp add: Update_def i j m)
qed

lemma Update_found:
  assumes "machines s = pre @ m # post"
    and "\<forall>p \<in> set pre. SID p \<noteq> MachineSID c"
    and "SID m = MachineSID c"
    and "Devices m = dpre @ a # dpost"
    and "\<forall>b \<in> set dpre. ID (h b) \<noteq> DeviceID c"
    and "ID (h a) = DeviceID c"
  shows "Update now c (h, s) =
    (case devicesLastUpdated s of
       None \<Rightarrow> Panics
     | Some t \<Rightarrow>
         Returns (None, h(a := (h a)\<lparr>Status := ChangedStatus c\<rparr>),
                  s\<lparr>devicesLastUpdated := Some (t(DeviceID c \<mapsto> now))\<rparr>))"
proof -
  have i: "first_index (\<lambda>m. SID m = MachineSID c) (machines s) = Some (length pre)"
    using assms(1-3) by (simp add: first_index_append)
  have j: "first_index (\<lambda>a. ID (h a) = DeviceID c) (Devices m) = Some (length dpre)"
    using assms(4-6) by (simp add: first_index_append)
  have m: "machines s ! length pre = m"
    using assms(1) by simp
  have upd: "(machines s)[length pre := m] = machines s"
    using assms(1) by simp
  have a: "Devices m ! length dpre = a"
    using assms(4) by simp
  show ?thesis
    by (simp add: Update_def i j m a upd split: option.splits)
qed

lemma devices_of_frame:
  "a \<notin> set (Devices m') \<Longrightarrow> devices_of (h(a := d)) m' = devices_of h m'"
  by (simp add: devices_of_def)

lemma devices_of_written:
  assumes "Devices m = dpre @ a # dpost" and "distinct (Devices m)"
  shows "devices_of (h(a := d)) m = (devices_of h m)[length dpre := d]"
proof -
  from assms have "a \<notin> set dpre" "a \<notin> set dpost"
    by auto
  then have "map (h(a := d)) dpre = map h dpre" "map (h(a := d)) dpost = map h dpost"
    by simp_all
  then show ?thesis
    using assms(1) by (simp add: devices_of_def list_update_append)
qed

lemma holders_nonempty:
  "holders h s d \<noteq> [] \<longleftrightarrow> (\<exists>m \<in> set (machines s). holds_device h m d)"
proof -
  have "holders h s d \<noteq> [] \<longleftrightarrow> (\<exists>i < length (machines s). holds_device h (machines s ! i) d)"
    by (auto simp: holders_def filter_empty_conv)
  also have "\<dots> \<longleftrightarrow> (\<exists>m \<in> set (machines s). holds_device h m d)"
    by (metis in_set_conv_nth)
  finally show ?thesis .
qed

lemma holds_device_status_write:
  "holds_device (h(a := (h a)\<lparr>Status := st\<rparr>)) m d = holds_device h m d"
proof -
  have "ID \<circ> (h(a := (h a)\<lparr>Status := st\<rparr>)) = ID \<circ> h"
    by (rule ext) simp
  then have "map ID (map (h(a := (h a)\<lparr>Status := st\<rparr>)) (Devices m)) = map ID (map h (Devices m))"
    by (simp only: map_map)
  then show ?thesis
    by (simp add: holds_device_def devices_of_def)
qed

lemma linked_iff:
  "linked (h, s) \<longleftrightarrow>
     (\<exists>t. devicesLastUpdated s = Some t \<and>
          (\<forall>d \<in> dom t. \<exists>m \<in> set (machines s). holds_device h m d))"
  by (auto simp: linked_def keys_in_some_def timestamps_def holders_nonempty)

lemma linked_New: "linked (h, NewLiveState)"
  by (simp add: linked_iff NewLiveState_def)

lemma linked_SetSystemInfo: "linked (h, SetSystemInfo entries s)"
  by (simp add: linked_iff SetSystemInfo_def)

lemma linked_AddMachine:
  assumes "linked (h, s)" and "SID entry \<notin> set (map SID (machines s))"
  shows "linked (h, AddMachine entry s)"
proof -
  from assms(2) have "\<forall>m \<in> set (machines s). \<not> SID m = SID entry"
    by (auto simp: image_iff)
  then have "first_index (\<lambda>m. SID m = SID entry) (machines s) = None"
    by (simp add: first_index_None)
  then have "AddMachine entry s = s\<lparr>machines := machines s @ [entry]\<rparr>"
    by (simp add: AddMachine_def)
  with assms(1) show ?thesis
    by (auto simp: linked_iff)
qed

lemma linked_Update:
  assumes "linked (h, s)"
  shows "\<exists>e h' s'. Update now c (h, s) = Returns (e, h', s') \<and> linked (h', s')"
proof (cases "first_index (\<lambda>m. SID m = MachineSID c) (machines s)")
  case None
  then show ?thesis using assms by (simp add: Update_def)
next
  case (Some i)
  let ?m = "machines s ! i"
  from first_index_Some [OF Some] have i: "i < length (machines s)"
    by simp
  show ?thesis
  proof (cases "first_index (\<lambda>a. ID (h a) = DeviceID c) (Devices ?m)")
    case None
    with Some show ?thesis using assms by (simp add: Update_def)
  next
    case j: (Some j)
    let ?a = "Devices ?m ! j"
    let ?h = "h(?a := (h ?a)\<lparr>Status := ChangedStatus c\<rparr>)"
    from first_index_Some [OF j] have a: "?a \<in> set (Devices ?m)" "ID (h ?a) = DeviceID c"
      by simp_all
    from assms obtain t where t: "devicesLastUpdated s = Some t"
      and old: "\<forall>d \<in> dom t. \<exists>m \<in> set (machines s). holds_device h m d"
      by (auto simp: linked_iff)
    let ?s = "s\<lparr>devicesLastUpdated := Some (t(DeviceID c \<mapsto> now))\<rparr>"
    have upd: "Update now c (h, s) = Returns (None, ?h, ?s)"
      using Some j t by (simp add: Update_def Let_def)
    have "holds_device h ?m (DeviceID c)"
      using a by (force simp: holds_device_def devices_of_def)
    moreover have "?m \<in> set (machines s)"
      using i by simp
    ultimately have new: "\<exists>m \<in> set (machines s). holds_device h m (DeviceID c)"
      by blast
    have "linked (?h, ?s)"
      using old new by (auto simp: linked_iff holds_device_status_write)
    with upd show ?thesis by blast
  qed
qed

lemma run_linked:
  "linked w \<Longrightarrow> adds_append ops w \<Longrightarrow> \<exists>w'. run ops w = Returns w' \<and> linked w'"
proof (induction ops arbitrary: w)
  case Nil
  then show ?case by simp
next
  case (Cons x xs)
  obtain h s where w: "w = (h, s)"
    by (cases w)
  have "\<exists>w1. apply_op x w = Returns w1 \<and> linked w1"
  proof (cases x)
    case (OpSetSystemInfo entries)
    then show ?thesis by (simp add: w linked_SetSystemInfo)
  next
    case (OpAddMachine entry)
    with Cons.prems show ?thesis by (simp add: w linked_AddMachine)
  next
    case (OpUpdate now c)
    from linked_Update [of h s now c] Cons.prems(1) w
    obtain e h' s' where "Update now c (h, s) = Returns (e, h', s')" "linked (h', s')"
      by blast
    with OpUpdate show ?thesis by (simp add: w)
  qed
  then obtain w1 where w1: "apply_op x w = Returns w1" "linked w1"
    by blast
  with Cons.prems(2) have "adds_append xs w1"
    by simp
  from Cons.IH [OF w1(2) this] w1(1) show ?case
    by simp
qed

lemma Update_keeps:
  assumes "devicesLastUpdated s = Some t"
  shows "\<exists>e h' s' t'. Update now c (h, s) = Returns (e, h', s') \<and>
    devicesLastUpdated s' = Some t' \<and> machines s' = machines s \<and>
    (\<forall>b. ID (h' b) = ID (h b))"
proof (cases "first_index (\<lambda>m. SID m = MachineSID c) (machines s)")
  case None
  then show ?thesis using assms by (simp add: Update_def)
next
  case (Some i)
  show ?thesis
  proof (cases "first_index (\<lambda>a. ID (h a) = DeviceID c) (Devices (machines s ! i))")
    case None
    with Some show ?thesis using assms by (simp add: Update_def)
  next
    case j: (Some j)
    from first_index_Some [OF Some] have "(machines s)[i := machines s ! i] = machines s"
      by simp
    with Some j assms show ?thesis
      by (simp add: Update_def Let_def)
  qed
qed

lemma apply_op_allocated:
  assumes "devicesLastUpdated (snd w) \<noteq> None"
  shows "\<exists>w'. apply_op x w = Returns w' \<and> devicesLastUpdated (snd w') \<noteq> None"
proof -
  obtain h s where w: "w = (h, s)"
    by (cases w)
  show ?thesis
  proof (cases x)
    case (OpSetSystemInfo entries)
    then show ?thesis by (simp add: w SetSystemInfo_def)
  next
    case (OpAddMachine entry)
    with assms show ?thesis
      by (simp add: w AddMachine_def split: option.splits)
  next
    case (OpUpdate now c)
    from assms w obtain t where "devicesLastUpdated s = Some t"
      by auto
    from Update_keeps [OF this, of now c h] OpUpdate show ?thesis
      by (auto simp: w)
  qed
qed

lemma run_allocated:
  "devicesLastUpdated (snd w) \<noteq> None \<Longrightarrow>
   \<exists>w'. run ops w = Returns w' \<and> devicesLastUpdated (snd w') \<noteq> None"
proof (induction ops arbitrary: w)
  case Nil
  then show ?case by simp
next
  case (Cons x xs)
  from apply_op_allocated [OF Cons.prems, of x]
  obtain w1 where w1: "apply_op x w = Returns w1" "devicesLastUpdated (snd w1) \<noteq> None"
    by blast
  from Cons.IH [OF w1(2)] w1(1) show ?case
    by simp
qed

lemma run_updates_keep:
  "devicesLastUpdated s \<noteq> None \<Longrightarrow>
   run (map (\<lambda>u. OpUpdate (fst u) (snd u)) ups) (h, s) = Returns (h1, s1) \<Longrightarrow>
   machines s1 = machines s \<and> (\<forall>b. ID (h1 b) = ID (h b))"
proof (induction ups arbitrary: h s)
  case Nil
  then show ?case by simp
next
  case (Cons u ups)
  from Cons.prems(1) obtain t where "devicesLastUpdated s = Some t"
    by auto
  from Update_keeps [OF this, of "fst u" "snd u" h]
  obtain e h' s' t' where step: "Update (fst u) (snd u) (h, s) = Returns (e, h', s')"
      "devicesLastUpdated s' = Some t'" "machines s' = machines s"
      "\<forall>b. ID (h' b) = ID (h b)"
    by blast
  from Cons.prems(2) step(1)
  have "run (map (\<lambda>u. OpUpdate (fst u) (snd u)) ups) (h', s') = Returns (h1, s1)"
    by simp
  from Cons.IH [OF _ this] step(2-4) show ?case
    by simp
qed

lemmas example_defs =
  machine_def change_def example_heap_def device_def mining_def idle_def StatusMining_def

lemma upt_two: "[0..<2] = [0, Suc 0]"
  by (simp add: upt_rec)

text \<open>
  C1, as amended. For every state, \<open>Update\<close> with a machine id that no machine of the
  snapshot carries returns the error \<open>machine not found\<close>; with a machine id that a
  machine carries and a device id that no device of the first machine in snapshot order
  with that machine id carries (so also when no device of any machine with that id
  carries it), it returns \<open>device not found\<close>. In both cases the store, the machine list
  and the timestamp map are returned as they were.
\<close>

theorem Update_not_found:
  "((\<forall>m \<in> set (machines s). SID m \<noteq> MachineSID c) \<longrightarrow>
      Update now c (h, s) = Returns (Some (New ''machine not found''), h, s)) \<and>
   (\<forall>pre m post.
      machines s = pre @ m # post \<and> (\<forall>p \<in> set pre. SID p \<noteq> MachineSID c) \<and>
      SID m = MachineSID c \<and> (\<forall>a \<in> set (Devices m). ID (h a) \<noteq> DeviceID c) \<longrightarrow>
      Update now c (h, s) = Returns (Some (New ''device not found''), h, s)) \<and>
   ((\<exists>m \<in> set (machines s). SID m = MachineSID c) \<and>
    (\<forall>m \<in> set (machines s). SID m = MachineSID c \<longrightarrow>
       (\<forall>a \<in> set (Devices m). ID (h a) \<noteq> DeviceID c)) \<longrightarrow>
      Update now c (h, s) = Returns (Some (New ''device not found''), h, s))"
proof (intro conjI allI impI)
  assume "\<forall>m \<in> set (machines s). SID m \<noteq> MachineSID c"
  then show "Update now c (h, s) = Returns (Some (New ''machine not found''), h, s)"
    by (rule Update_machine_not_found)
next
  fix pre m post
  assume "machines s = pre @ m # post \<and> (\<forall>p \<in> set pre. SID p \<noteq> MachineSID c) \<and>
      SID m = MachineSID c \<and> (\<forall>a \<in> set (Devices m). ID (h a) \<noteq> DeviceID c)"
  then show "Update now c (h, s) = Returns (Some (New ''device not found''), h, s)"
    using Update_device_not_found [of s pre m post c h now] by blast
next
  assume a: "(\<exists>m \<in> set (machines s). SID m = MachineSID c) \<and>
    (\<forall>m \<in> set (machines s). SID m = MachineSID c \<longrightarrow>
       (\<forall>a \<in> set (Devices m). ID (h a) \<noteq> DeviceID c))"
  then obtain pre m post where split: "machines s = pre @ m # post"
      "SID m = MachineSID c" "\<forall>p \<in> set pre. SID p \<noteq> MachineSID c"
    using split_list_first_prop [of "machines s" "\<lambda>m. SID m = MachineSID c"] by blast
  then have "m \<in> set (machines s)"
    by simp
  with a split(2) have "\<forall>a \<in> set (Devices m). ID (h a) \<noteq> DeviceID c"
    by blast
  with split show "Update now c (h, s) = Returns (Some (New ''device not found''), h, s)"
    using Update_device_not_found [of s pre m post c h now] by blast
qed

theorem Update_not_found_witness:
  "Update 7 (change ''m9'' ''gpu0'') (example_heap, SetSystemInfo [machine ''m1'' [0, 1]] NewLiveState) =
     Returns (Some (New ''machine not found''), example_heap,
              SetSystemInfo [machine ''m1'' [0, 1]] NewLiveState) \<and>
   Update 7 (change ''m1'' ''gpu7'') (example_heap, SetSystemInfo [machine ''m1'' [0, 1]] NewLiveState) =
     Returns (Some (New ''device not found''), example_heap,
              SetSystemInfo [machine ''m1'' [0, 1]] NewLiveState)"
proof -
  let ?s = "SetSystemInfo [machine ''m1'' [0, 1]] NewLiveState"
  have a: "\<forall>m \<in> set (machines ?s). SID m \<noteq> MachineSID (change ''m9'' ''gpu0'')"
    by (simp add: SetSystemInfo_def machine_def change_def)
  have b: "machines ?s = [] @ machine ''m1'' [0, 1] # [] \<and>
      (\<forall>p \<in> set []. SID p \<noteq> MachineSID (change ''m1'' ''gpu7'')) \<and>
      SID (machine ''m1'' [0, 1]) = MachineSID (change ''m1'' ''gpu7'') \<and>
      (\<forall>a \<in> set (Devices (machine ''m1'' [0, 1])).
         ID (example_heap a) \<noteq> DeviceID (change ''m1'' ''gpu7''))"
    by (simp add: SetSystemInfo_def machine_def change_def example_heap_def device_def)
  from a Update_not_found [of ?s "change ''m9'' ''gpu0''" 7 example_heap]
  have "Update 7 (change ''m9'' ''gpu0'') (example_heap, ?s) =
     Returns (Some (New ''machine not found''), example_heap, ?s)"
    by blast
  moreover from b Update_not_found [of ?s "change ''m1'' ''gpu7''" 7 example_heap]
  have "Update 7 (change ''m1'' ''gpu7'') (example_heap, ?s) =
     Returns (Some (New ''device not found''), example_heap, ?s)"
    by blast
  ultimately show ?thesis by simp
qed

text \<open>
  The claim as stated fails when two machines carry the machine id: the id matches the
  second machine, no device of that machine has the device id, and yet \<open>Update\<close> finds
  the device in the first machine, returns no error and writes the store and the map.
\<close>

theorem Update_not_found_counterexample:
  "machine ''m1'' [1] \<in> set (machines (SetSystemInfo [machine ''m1'' [0], machine ''m1'' [1]] NewLiveState)) \<and>
   SID (machine ''m1'' [1]) = MachineSID (change ''m1'' ''gpu0'') \<and>
   \<not> holds_device example_heap (machine ''m1'' [1]) (DeviceID (change ''m1'' ''gpu0'')) \<and>
   Update 7 (change ''m1'' ''gpu0'')
     (example_heap, SetSystemInfo [machine ''m1'' [0], machine ''m1'' [1]] NewLiveState) =
     Returns (None, example_heap(0 := (device ''gpu0'')\<lparr>Status := mining\<rparr>),
       \<lparr>machines = [machine ''m1'' [0], machine ''m1'' [1]],
        devicesLastUpdated = Some [''gpu0'' \<mapsto> 7]\<rparr>)"
proof -
  have u: "Update 7 (change ''m1'' ''gpu0'')
     (example_heap, SetSystemInfo [machine ''m1'' [0], machine ''m1'' [1]] NewLiveState) =
     Returns (None, example_heap(0 := (device ''gpu0'')\<lparr>Status := mining\<rparr>),
       \<lparr>machines = [machine ''m1'' [0], machine ''m1'' [1]],
        devicesLastUpdated = Some [''gpu0'' \<mapsto> 7]\<rparr>)"
    by (simp add: Update_def SetSystemInfo_def NewLiveState_def example_defs)
  have rest:
    "machine ''m1'' [1] \<in> set (machines (SetSystemInfo [machine ''m1'' [0], machine ''m1'' [1]] NewLiveState))"
    "SID (machine ''m1'' [1]) = MachineSID (change ''m1'' ''gpu0'')"
    "\<not> holds_device example_heap (machine ''m1'' [1]) (DeviceID (change ''m1'' ''gpu0''))"
    by (simp_all add: SetSystemInfo_def holds_device_def devices_of_def example_defs)
  from rest u show ?thesis
    by (intro conjI)
qed

text \<open>
  C10. \<open>Update\<close> commits to the first machine in snapshot order whose \<open>SID\<close> is the
  given machine id: when that machine holds no device with the given id, the result is
  \<open>device not found\<close> and the state is unchanged, also when a later machine with the
  same \<open>SID\<close> holds the device; whatever machines follow the first match, the result
  is the same.
\<close>

theorem Update_commits_to_first_match:
  assumes "\<forall>p \<in> set pre. SID p \<noteq> MachineSID c"
    and "SID m1 = MachineSID c"
    and "\<forall>a \<in> set (Devices m1). ID (h a) \<noteq> DeviceID c"
    and "SID m2 = MachineSID c"
    and "\<exists>a \<in> set (Devices m2). ID (h a) = DeviceID c"
    and "machines s = pre @ m1 # between @ m2 # post"
  shows "Update now c (h, s) = Returns (Some (New ''device not found''), h, s) \<and>
    (\<forall>later. Update now c (h, s\<lparr>machines := pre @ m1 # later\<rparr>) =
       Returns (Some (New ''device not found''), h, s\<lparr>machines := pre @ m1 # later\<rparr>))"
proof (intro conjI allI)
  show "Update now c (h, s) = Returns (Some (New ''device not found''), h, s)"
    using Update_device_not_found [of s pre m1 "between @ m2 # post" c h now] assms
    by simp
next
  fix later
  show "Update now c (h, s\<lparr>machines := pre @ m1 # later\<rparr>) =
       Returns (Some (New ''device not found''), h, s\<lparr>machines := pre @ m1 # later\<rparr>)"
    using Update_device_not_found [of "s\<lparr>machines := pre @ m1 # later\<rparr>" pre m1 later c h now]
      assms(1-3)
    by simp
qed

theorem Update_commits_to_first_match_witness:
  "SID (machine ''m1'' [1]) = ''m1'' \<and> SID (machine ''m1'' [0]) = ''m1'' \<and>
   \<not> holds_device example_heap (machine ''m1'' [1]) ''gpu0'' \<and>
   holds_device example_heap (machine ''m1'' [0]) ''gpu0'' \<and>
   Update 7 (change ''m1'' ''gpu0'')
     (example_heap, SetSystemInfo [machine ''m1'' [1], machine ''m1'' [0]] NewLiveState) =
   Returns (Some (New ''device not found''), example_heap,
            SetSystemInfo [machine ''m1'' [1], machine ''m1'' [0]] NewLiveState)"
proof -
  let ?s = "SetSystemInfo [machine ''m1'' [1], machine ''m1'' [0]] NewLiveState"
  let ?c = "change ''m1'' ''gpu0''"
  have 1: "\<forall>p \<in> set []. SID p \<noteq> MachineSID ?c" by simp
  have 2: "SID (machine ''m1'' [1]) = MachineSID ?c"
    by (simp add: machine_def change_def)
  have 3: "\<forall>a \<in> set (Devices (machine ''m1'' [1])). ID (example_heap a) \<noteq> DeviceID ?c"
    by (simp add: machine_def change_def example_heap_def device_def)
  have 4: "SID (machine ''m1'' [0]) = MachineSID ?c"
    by (simp add: machine_def change_def)
  have 5: "\<exists>a \<in> set (Devices (machine ''m1'' [0])). ID (example_heap a) = DeviceID ?c"
    by (simp add: machine_def change_def example_heap_def device_def)
  have 6: "machines ?s = [] @ machine ''m1'' [1] # [] @ machine ''m1'' [0] # []"
    by (simp add: SetSystemInfo_def)
  have 7: "SID (machine ''m1'' [1]) = ''m1'' \<and> SID (machine ''m1'' [0]) = ''m1'' \<and>
      \<not> holds_device example_heap (machine ''m1'' [1]) ''gpu0'' \<and>
      holds_device example_heap (machine ''m1'' [0]) ''gpu0''"
    by (simp add: holds_device_def devices_of_def machine_def example_heap_def device_def)
  from Update_commits_to_first_match [OF 1 2 3 4 5 6, of 7] 7
  show ?thesis by simp
qed

text \<open>
  C5, as amended. After \<open>SetSystemInfo\<close> has installed a snapshot, no later sequence
  of operations panics, and in the state \<open>(h, s)\<close> any such sequence leads to, an
  \<open>Update\<close> that names a machine id and a device id such that the first machine with
  that id holds a device with that device id succeeds: it returns no error, writes the
  one array cell \<open>a\<close> of the first such device, replacing its \<open>Status\<close> wholesale and
  keeping its other fields, leaves every other cell of the store as it was (so the
  sibling devices of the machine, and the devices of every machine whose device array
  does not share the cell), leaves the machine list as it was, and adds to the timestamp
  map the device id with the time of the call, leaving its other entries. Between
  \<open>SetSystemInfo\<close> and that call, earlier \<open>Update\<close> calls leave the machine list and
  every device id as installed; the map is empty right after \<open>SetSystemInfo\<close>.
\<close>

theorem Update_after_SetSystemInfo:
  assumes "run ops (h0, SetSystemInfo entries s0) = Returns (h, s)"
    and "machines s = pre @ m # post"
    and "\<forall>p \<in> set pre. SID p \<noteq> MachineSID c"
    and "SID m = MachineSID c"
    and "Devices m = dpre @ a # dpost"
    and "\<forall>b \<in> set dpre. ID (h b) \<noteq> DeviceID c"
    and "ID (h a) = DeviceID c"
    and "h' = h(a := (h a)\<lparr>Status := ChangedStatus c\<rparr>)"
  shows "(\<exists>t. devicesLastUpdated s = Some t \<and>
       Update now c (h, s) =
         Returns (None, h',
           \<lparr>machines = machines s,
            devicesLastUpdated = Some (t(DeviceID c \<mapsto> now))\<rparr>)) \<and>
    Status (h' a) = ChangedStatus c \<and>
    ID (h' a) = ID (h a) \<and> Enabled (h' a) = Enabled (h a) \<and>
    Name (h' a) = Name (h a) \<and> Type (h' a) = Type (h a) \<and>
    (\<forall>b. b \<noteq> a \<longrightarrow> h' b = h b) \<and>
    (distinct (Devices m) \<longrightarrow>
       devices_of h' m = (devices_of h m)[length dpre := (h a)\<lparr>Status := ChangedStatus c\<rparr>]) \<and>
    (\<forall>m' \<in> set (machines s). a \<notin> set (Devices m') \<longrightarrow>
       devices_of h' m' = devices_of h m') \<and>
    (\<forall>ops'. \<exists>w. run ops' (h0, SetSystemInfo entries s0) = Returns w) \<and>
    (\<forall>ups h1 s1.
       run (map (\<lambda>u. OpUpdate (fst u) (snd u)) ups) (h0, SetSystemInfo entries s0) =
         Returns (h1, s1) \<longrightarrow>
       machines s1 = entries \<and> (\<forall>b. ID (h1 b) = ID (h0 b))) \<and>
    machines (SetSystemInfo entries s0) = entries \<and>
    devicesLastUpdated (SetSystemInfo entries s0) = Some Map.empty"
proof -
  let ?d = "(h a)\<lparr>Status := ChangedStatus c\<rparr>"
  let ?w0 = "(h0, SetSystemInfo entries s0)"
  have alloc0: "devicesLastUpdated (snd ?w0) \<noteq> None"
    by (simp add: SetSystemInfo_def)
  from run_allocated [OF alloc0, of ops] assms(1)
  obtain t where t: "devicesLastUpdated s = Some t"
    by auto
  have "Update now c (h, s) =
      Returns (None, h(a := ?d), s\<lparr>devicesLastUpdated := Some (t(DeviceID c \<mapsto> now))\<rparr>)"
    using Update_found [OF assms(2-7), of now] t by simp
  moreover have "s\<lparr>devicesLastUpdated := Some (t(DeviceID c \<mapsto> now))\<rparr> =
      \<lparr>machines = machines s, devicesLastUpdated = Some (t(DeviceID c \<mapsto> now))\<rparr>"
    by simp
  ultimately have upd: "\<exists>t. devicesLastUpdated s = Some t \<and>
       Update now c (h, s) =
         Returns (None, h(a := ?d),
           \<lparr>machines = machines s,
            devicesLastUpdated = Some (t(DeviceID c \<mapsto> now))\<rparr>)"
    using t by simp
  have written: "distinct (Devices m) \<longrightarrow>
      devices_of (h(a := ?d)) m = (devices_of h m)[length dpre := ?d]"
    using devices_of_written [OF assms(5)] by simp
  have frame: "\<forall>m' \<in> set (machines s). a \<notin> set (Devices m') \<longrightarrow>
      devices_of (h(a := ?d)) m' = devices_of h m'"
    by (simp add: devices_of_frame)
  have total: "\<forall>ops'. \<exists>w. run ops' ?w0 = Returns w"
    using run_allocated [OF alloc0] by blast
  have kept: "\<forall>ups h1 s1.
       run (map (\<lambda>u. OpUpdate (fst u) (snd u)) ups) ?w0 = Returns (h1, s1) \<longrightarrow>
       machines s1 = entries \<and> (\<forall>b. ID (h1 b) = ID (h0 b))"
  proof (intro allI impI)
    fix ups h1 s1
    assume "run (map (\<lambda>u. OpUpdate (fst u) (snd u)) ups) ?w0 = Returns (h1, s1)"
    from run_updates_keep [OF _ this]
    show "machines s1 = entries \<and> (\<forall>b. ID (h1 b) = ID (h0 b))"
      by (simp add: SetSystemInfo_def)
  qed
  have inst: "machines (SetSystemInfo entries s0) = entries \<and>
      devicesLastUpdated (SetSystemInfo entries s0) = Some Map.empty"
    by (simp add: SetSystemInfo_def)
  from upd written frame total kept inst show ?thesis
    unfolding assms(8) by simp
qed

theorem Update_after_SetSystemInfo_witness:
  "run [OpUpdate 5 (change ''m1'' ''gpu0'')]
     (example_heap, SetSystemInfo [machine ''m1'' [0, 1], machine ''m2'' [2]] NewLiveState) =
     Returns (example_heap(0 := (device ''gpu0'')\<lparr>Status := mining\<rparr>),
       \<lparr>machines = [machine ''m1'' [0, 1], machine ''m2'' [2]],
        devicesLastUpdated = Some [''gpu0'' \<mapsto> 5]\<rparr>) \<and>
   Update 7 (change ''m1'' ''gpu1'')
     (example_heap(0 := (device ''gpu0'')\<lparr>Status := mining\<rparr>),
      \<lparr>machines = [machine ''m1'' [0, 1], machine ''m2'' [2]],
       devicesLastUpdated = Some [''gpu0'' \<mapsto> 5]\<rparr>) =
     Returns (None,
       example_heap(0 := (device ''gpu0'')\<lparr>Status := mining\<rparr>,
                    1 := (device ''gpu1'')\<lparr>Status := mining\<rparr>),
       \<lparr>machines = [machine ''m1'' [0, 1], machine ''m2'' [2]],
        devicesLastUpdated = Some [''gpu0'' \<mapsto> 5, ''gpu1'' \<mapsto> 7]\<rparr>) \<and>
   devices_of
     (example_heap(0 := (device ''gpu0'')\<lparr>Status := mining\<rparr>,
                   1 := (device ''gpu1'')\<lparr>Status := mining\<rparr>)) (machine ''m1'' [0, 1]) =
     [(device ''gpu0'')\<lparr>Status := mining\<rparr>, (device ''gpu1'')\<lparr>Status := mining\<rparr>] \<and>
   devices_of
     (example_heap(0 := (device ''gpu0'')\<lparr>Status := mining\<rparr>,
                   1 := (device ''gpu1'')\<lparr>Status := mining\<rparr>)) (machine ''m2'' [2]) =
     [device ''gpu0'']"
proof -
  let ?c = "change ''m1'' ''gpu1''"
  let ?m = "machine ''m1'' [0, 1]"
  let ?es = "[?m, machine ''m2'' [2]]"
  let ?h = "example_heap(0 := (device ''gpu0'')\<lparr>Status := mining\<rparr>)"
  let ?s = "\<lparr>machines = ?es, devicesLastUpdated = Some [''gpu0'' \<mapsto> (5::int)]\<rparr>"
  let ?h' = "?h(1 := (device ''gpu1'')\<lparr>Status := mining\<rparr>)"
  have 1: "run [OpUpdate 5 (change ''m1'' ''gpu0'')] (example_heap, SetSystemInfo ?es NewLiveState) =
      Returns (?h, ?s)"
    by (simp add: Update_def SetSystemInfo_def NewLiveState_def example_defs)
  have 2: "machines ?s = [] @ ?m # [machine ''m2'' [2]]" by simp
  have 3: "\<forall>p \<in> set []. SID p \<noteq> MachineSID ?c" by simp
  have 4: "SID ?m = MachineSID ?c" by (simp add: example_defs)
  have 5: "Devices ?m = [0] @ 1 # []" by (simp add: example_defs)
  have 6: "\<forall>b \<in> set [0]. ID (?h b) \<noteq> DeviceID ?c" by (simp add: example_defs)
  have 7: "ID (?h 1) = DeviceID ?c" by (simp add: example_defs)
  have 8: "?h' = ?h(1 := (?h 1)\<lparr>Status := ChangedStatus ?c\<rparr>)"
    by (simp add: example_heap_def change_def)
  have d: "distinct (Devices ?m)" by (simp add: example_defs)
  have n: "machine ''m2'' [2] \<in> set (machines ?s) \<and> 1 \<notin> set (Devices (machine ''m2'' [2]))"
    by (simp add: machine_def)
  have v: "(devices_of ?h ?m)[length [0::nat] := (?h 1)\<lparr>Status := ChangedStatus ?c\<rparr>] =
      [(device ''gpu0'')\<lparr>Status := mining\<rparr>, (device ''gpu1'')\<lparr>Status := mining\<rparr>]"
    by (simp add: devices_of_def machine_def example_heap_def change_def)
  have o: "devices_of ?h (machine ''m2'' [2]) = [device ''gpu0'']"
    by (simp add: devices_of_def machine_def example_heap_def)
  from Update_after_SetSystemInfo [OF 1 2 3 4 5 6 7 8, of 7] d n v o 1
  show ?thesis
    by (simp add: change_def)
qed

text \<open>
  The claim as stated fails twice. When two machines of the snapshot carry the machine id
  and only the second holds the device, \<open>Update\<close> returns \<open>device not found\<close>. And
  when two machines share a device array (two struct values built from one slice), the
  write to the device of the first is seen in the second.
\<close>

theorem Update_after_SetSystemInfo_counterexample:
  "machine ''m1'' [0] \<in> set [machine ''m1'' [], machine ''m1'' [0]] \<and>
   SID (machine ''m1'' [0]) = MachineSID (change ''m1'' ''gpu0'') \<and>
   holds_device example_heap (machine ''m1'' [0]) (DeviceID (change ''m1'' ''gpu0'')) \<and>
   Update 7 (change ''m1'' ''gpu0'')
     (example_heap, SetSystemInfo [machine ''m1'' [], machine ''m1'' [0]] NewLiveState) =
     Returns (Some (New ''device not found''), example_heap,
       SetSystemInfo [machine ''m1'' [], machine ''m1'' [0]] NewLiveState) \<and>
   Update 7 (change ''m1'' ''gpu0'')
     (example_heap, SetSystemInfo [machine ''m1'' [0], machine ''m2'' [0]] NewLiveState) =
     Returns (None, example_heap(0 := (device ''gpu0'')\<lparr>Status := mining\<rparr>),
       \<lparr>machines = [machine ''m1'' [0], machine ''m2'' [0]],
        devicesLastUpdated = Some [''gpu0'' \<mapsto> 7]\<rparr>) \<and>
   devices_of example_heap (machine ''m2'' [0]) = [device ''gpu0''] \<and>
   devices_of (example_heap(0 := (device ''gpu0'')\<lparr>Status := mining\<rparr>)) (machine ''m2'' [0]) =
     [(device ''gpu0'')\<lparr>Status := mining\<rparr>] \<and>
   (device ''gpu0'')\<lparr>Status := mining\<rparr> \<noteq> device ''gpu0''"
proof -
  have dup: "Update 7 (change ''m1'' ''gpu0'')
     (example_heap, SetSystemInfo [machine ''m1'' [], machine ''m1'' [0]] NewLiveState) =
     Returns (Some (New ''device not found''), example_heap,
       SetSystemInfo [machine ''m1'' [], machine ''m1'' [0]] NewLiveState)"
    by (simp add: Update_def SetSystemInfo_def NewLiveState_def example_defs)
  have shared: "Update 7 (change ''m1'' ''gpu0'')
     (example_heap, SetSystemInfo [machine ''m1'' [0], machine ''m2'' [0]] NewLiveState) =
     Returns (None, example_heap(0 := (device ''gpu0'')\<lparr>Status := mining\<rparr>),
       \<lparr>machines = [machine ''m1'' [0], machine ''m2'' [0]],
        devicesLastUpdated = Some [''gpu0'' \<mapsto> 7]\<rparr>)"
    by (simp add: Update_def SetSystemInfo_def NewLiveState_def example_defs)
  have rest: "machine ''m1'' [0] \<in> set [machine ''m1'' [], machine ''m1'' [0]]"
    "SID (machine ''m1'' [0]) = MachineSID (change ''m1'' ''gpu0'')"
    "holds_device example_heap (machine ''m1'' [0]) (DeviceID (change ''m1'' ''gpu0''))"
    "devices_of example_heap (machine ''m2'' [0]) = [device ''gpu0'']"
    "devices_of (example_heap(0 := (device ''gpu0'')\<lparr>Status := mining\<rparr>)) (machine ''m2'' [0]) =
       [(device ''gpu0'')\<lparr>Status := mining\<rparr>]"
    "(device ''gpu0'')\<lparr>Status := mining\<rparr> \<noteq> device ''gpu0''"
    by (simp_all add: holds_device_def devices_of_def example_defs)
  from dup shared rest show ?thesis
    by (intro conjI)
qed

text \<open>
  C2, as amended. From a fresh \<open>NewLiveState\<close>, after any finite sequence of
  \<open>SetSystemInfo\<close>, \<open>Update\<close> and \<open>AddMachine\<close> calls in which each \<open>AddMachine\<close>
  names a machine id that the list does not hold yet, no call panics and every key of
  the timestamp map is the id of a device of at least one machine of the list;
  \<open>SetSystemInfo\<close> installs the new list and an empty map in one call.
\<close>

theorem timestamp_keys_exist:
  "(adds_append ops (h, NewLiveState) \<longrightarrow>
      (\<exists>w. run ops (h, NewLiveState) = Returns w \<and> keys_in_some w)) \<and>
   machines (SetSystemInfo entries s) = entries \<and>
   timestamps (SetSystemInfo entries s) = Map.empty"
proof -
  have "adds_append ops (h, NewLiveState) \<longrightarrow>
      (\<exists>w. run ops (h, NewLiveState) = Returns w \<and> keys_in_some w)"
    using run_linked [OF linked_New, of ops h] by (auto simp: linked_def)
  then show ?thesis
    by (simp add: SetSystemInfo_def timestamps_def)
qed

theorem timestamp_keys_exist_witness:
  "adds_append
     [OpSetSystemInfo [machine ''m1'' [0, 1]], OpAddMachine (machine ''m2'' [2]),
      OpUpdate 7 (change ''m1'' ''gpu1'')] (example_heap, NewLiveState) \<and>
   run [OpSetSystemInfo [machine ''m1'' [0, 1]], OpAddMachine (machine ''m2'' [2]),
        OpUpdate 7 (change ''m1'' ''gpu1'')] (example_heap, NewLiveState) =
     Returns (example_heap(1 := (device ''gpu1'')\<lparr>Status := mining\<rparr>),
       \<lparr>machines = [machine ''m1'' [0, 1], machine ''m2'' [2]],
        devicesLastUpdated = Some [''gpu1'' \<mapsto> 7]\<rparr>) \<and>
   holders (example_heap(1 := (device ''gpu1'')\<lparr>Status := mining\<rparr>))
     \<lparr>machines = [machine ''m1'' [0, 1], machine ''m2'' [2]],
      devicesLastUpdated = Some [''gpu1'' \<mapsto> 7]\<rparr> ''gpu1'' = [0] \<and>
   keys_in_some
     (example_heap(1 := (device ''gpu1'')\<lparr>Status := mining\<rparr>),
      \<lparr>machines = [machine ''m1'' [0, 1], machine ''m2'' [2]],
       devicesLastUpdated = Some [''gpu1'' \<mapsto> 7]\<rparr>)"
proof -
  let ?ops = "[OpSetSystemInfo [machine ''m1'' [0, 1]], OpAddMachine (machine ''m2'' [2]),
      OpUpdate 7 (change ''m1'' ''gpu1'')]"
  let ?h = "example_heap(1 := (device ''gpu1'')\<lparr>Status := mining\<rparr>)"
  let ?s = "\<lparr>machines = [machine ''m1'' [0, 1], machine ''m2'' [2]],
       devicesLastUpdated = Some [''gpu1'' \<mapsto> (7::int)]\<rparr>"
  have a: "adds_append ?ops (example_heap, NewLiveState)"
    by (simp add: Update_def SetSystemInfo_def NewLiveState_def AddMachine_def example_defs)
  have r: "run ?ops (example_heap, NewLiveState) = Returns (?h, ?s)"
    by (simp add: Update_def SetSystemInfo_def NewLiveState_def AddMachine_def example_defs)
  have hs: "holders ?h ?s ''gpu1'' = [0]"
    by (simp add: holders_def holds_device_def devices_of_def upt_two example_defs)
  from a timestamp_keys_exist [of ?ops example_heap] r have "keys_in_some (?h, ?s)"
    by auto
  with a r hs show ?thesis
    by (intro conjI)
qed

text \<open>
  The claim as stated fails twice. Device ids are unique within one machine only: after a
  snapshot of two machines that both hold a device \<open>gpu0\<close> and one \<open>Update\<close>, the key
  \<open>gpu0\<close> belongs to two machines. And \<open>AddMachine\<close> overwrites a machine without
  touching the map: the key \<open>gpu0\<close> outlives the only machine that held the device.
\<close>

theorem timestamp_keys_counterexample:
  "run [OpSetSystemInfo [machine ''m1'' [0], machine ''m2'' [2]],
        OpUpdate 7 (change ''m1'' ''gpu0'')] (example_heap, NewLiveState) =
     Returns (example_heap(0 := (device ''gpu0'')\<lparr>Status := mining\<rparr>),
       \<lparr>machines = [machine ''m1'' [0], machine ''m2'' [2]],
        devicesLastUpdated = Some [''gpu0'' \<mapsto> 7]\<rparr>) \<and>
   holders (example_heap(0 := (device ''gpu0'')\<lparr>Status := mining\<rparr>))
     \<lparr>machines = [machine ''m1'' [0], machine ''m2'' [2]],
      devicesLastUpdated = Some [''gpu0'' \<mapsto> 7]\<rparr> ''gpu0'' = [0, 1] \<and>
   \<not> keys_in_exactly_one
     (example_heap(0 := (device ''gpu0'')\<lparr>Status := mining\<rparr>),
      \<lparr>machines = [machine ''m1'' [0], machine ''m2'' [2]],
       devicesLastUpdated = Some [''gpu0'' \<mapsto> 7]\<rparr>) \<and>
   run [OpSetSystemInfo [machine ''m1'' [0]],
        OpUpdate 7 (change ''m1'' ''gpu0''),
        OpAddMachine (machine ''m1'' [])] (example_heap, NewLiveState) =
     Returns (example_heap(0 := (device ''gpu0'')\<lparr>Status := mining\<rparr>),
       \<lparr>machines = [machine ''m1'' []],
        devicesLastUpdated = Some [''gpu0'' \<mapsto> 7]\<rparr>) \<and>
   holders (example_heap(0 := (device ''gpu0'')\<lparr>Status := mining\<rparr>))
     \<lparr>machines = [machine ''m1'' []],
      devicesLastUpdated = Some [''gpu0'' \<mapsto> 7]\<rparr> ''gpu0'' = [] \<and>
   \<not> keys_in_some
     (example_heap(0 := (device ''gpu0'')\<lparr>Status := mining\<rparr>),
      \<lparr>machines = [machine ''m1'' []],
       devicesLastUpdated = Some [''gpu0'' \<mapsto> 7]\<rparr>)"
proof -
  let ?h = "example_heap(0 := (device ''gpu0'')\<lparr>Status := mining\<rparr>)"
  let ?s2 = "\<lparr>machines = [machine ''m1'' [0], machine ''m2'' [2]],
       devicesLastUpdated = Some [''gpu0'' \<mapsto> 7]\<rparr>"
  let ?s1 = "\<lparr>machines = [machine ''m1'' []],
       devicesLastUpdated = Some [''gpu0'' \<mapsto> (7::int)]\<rparr>"
  have r2: "run [OpSetSystemInfo [machine ''m1'' [0], machine ''m2'' [2]],
        OpUpdate 7 (change ''m1'' ''gpu0'')] (example_heap, NewLiveState) = Returns (?h, ?s2)"
    by (simp add: Update_def SetSystemInfo_def NewLiveState_def example_defs)
  have h2: "holders ?h ?s2 ''gpu0'' = [0, 1]"
    by (simp add: holders_def holds_device_def devices_of_def upt_two example_defs)
  have k2: "\<not> keys_in_exactly_one (?h, ?s2)"
    by (simp add: keys_in_exactly_one_def timestamps_def h2)
  have r1: "run [OpSetSystemInfo [machine ''m1'' [0]],
        OpUpdate 7 (change ''m1'' ''gpu0''),
        OpAddMachine (machine ''m1'' [])] (example_heap, NewLiveState) = Returns (?h, ?s1)"
    by (simp add: Update_def SetSystemInfo_def NewLiveState_def AddMachine_def example_defs)
  have h1: "holders ?h ?s1 ''gpu0'' = []"
    by (simp add: holders_def holds_device_def devices_of_def example_defs)
  have k1: "\<not> keys_in_some (?h, ?s1)"
    by (simp add: keys_in_some_def timestamps_def h1)
  from r2 h2 k2 r1 h1 k1 show ?thesis
    by (intro conjI)
qed

section \<open>Facts about the decoders\<close>

lemma show_nat_digit: "n < 10 \<Longrightarrow> show_nat n = [char_of (48 + n)]"
  by (simp add: show_nat.simps [of n])

lemma show_nat_2: "show_nat 2 = ''2''"
  by (simp add: show_nat_digit) code_simp

lemma show_nat_3: "show_nat 3 = ''3''"
  by (simp add: show_nat_digit) code_simp

text \<open>
  C7. For every message whose method is \<open>StatusChanged\<close> and whose argument list has
  a length other than 3, \<open>ParseStatusChangedMessage\<close> returns an error and no record:
  the arity error of \<open>checkMethodAndArgCount\<close>, which names the expected count 3 and
  the actual count, wrapped as \<open>invalid message\<close>.
\<close>

theorem ParseStatusChangedMessage_wrong_arity:
  assumes "Method message = MethodStatusChanged"
    and "length (Arguments message) \<noteq> 3"
  shows "ParseStatusChangedMessage u message =
      Inl (Wrap (ExpectedArguments 3 (length (Arguments message))) ''invalid message'') \<and>
    Error (Wrap (ExpectedArguments 3 (length (Arguments message))) ''invalid message'') =
      ''invalid message: expected 3 arguments, got '' @ show_nat (length (Arguments message))"
proof -
  have "checkMethodAndArgCount message MethodStatusChanged 3 =
      Some (ExpectedArguments 3 (length (Arguments message)))"
    using assms by (simp add: checkMethodAndArgCount_def)
  then show ?thesis
    by (simp add: ParseStatusChangedMessage_def show_nat_3)
qed

theorem ParseStatusChangedMessage_wrong_arity_witness:
  "ParseStatusChangedMessage example_Unmarshal
     \<lparr>Host = ''reportinghub'', Method = ''StatusChanged'',
      Arguments = [Some ''m1'', Some ''gpu0'']\<rparr> =
     Inl (Wrap (ExpectedArguments 3 2) ''invalid message'') \<and>
   Error (Wrap (ExpectedArguments 3 2) ''invalid message'') =
     ''invalid message: expected 3 arguments, got 2''"
  using ParseStatusChangedMessage_wrong_arity
    [of "\<lparr>Host = ''reportinghub'', Method = ''StatusChanged'',
          Arguments = [Some ''m1'', Some ''gpu0'']\<rparr>" example_Unmarshal]
  by (simp add: MethodStatusChanged_def show_nat_2)

text \<open>
  C8. For every message with the method \<open>SetSystemInfo\<close> and exactly 3 arguments whose
  third argument decodes as a machine record, \<open>ParseSystemInfoMessage\<close> returns a list
  of exactly that one machine; the result is the same whatever the first two arguments
  (and the host field, and the decoders of the other types) are.
\<close>

theorem ParseSystemInfoMessage_third_argument:
  assumes "Method message = MethodSetSystemInfo"
    and "Arguments message = [clientID, machineSID, info]"
    and "MarshalJSON info = Inr bb"
    and "as_MachineEntry u bb = Inr m"
  shows "ParseSystemInfoMessage u message = Inr [m] \<and>
    (\<forall>host' clientID' machineSID' u'.
       as_MachineEntry u' = as_MachineEntry u \<longrightarrow>
       ParseSystemInfoMessage u'
         (message\<lparr>Host := host', Arguments := [clientID', machineSID', info]\<rparr>) = Inr [m])"
  using assms by (simp add: ParseSystemInfoMessage_def eval_nat_numeral)

theorem ParseSystemInfoMessage_third_argument_witness:
  "ParseSystemInfoMessage example_Unmarshal
     \<lparr>Host = ''reportinghub'', Method = ''SetSystemInfo'',
      Arguments = [Some ''17'', Some ''m1'', Some ''rig'']\<rparr> = Inr [machine ''rig'' [0, 1]] \<and>
   ParseSystemInfoMessage example_Unmarshal
     \<lparr>Host = ''other'', Method = ''SetSystemInfo'',
      Arguments = [None, Some ''m2'', Some ''rig'']\<rparr> = Inr [machine ''rig'' [0, 1]]"
proof -
  let ?msg = "\<lparr>Host = ''reportinghub'', Method = ''SetSystemInfo'',
      Arguments = [Some ''17'', Some ''m1'', Some ''rig'']\<rparr>"
  have 1: "Method ?msg = MethodSetSystemInfo"
    by (simp add: MethodSetSystemInfo_def)
  have 2: "Arguments ?msg = [Some ''17'', Some ''m1'', Some ''rig'']"
    by simp
  have 3: "MarshalJSON (Some ''rig'') = Inr ''rig''"
    by (simp add: MarshalJSON_def)
  have 4: "as_MachineEntry example_Unmarshal ''rig'' = Inr (machine ''rig'' [0, 1])"
    by (simp add: example_Unmarshal_def)
  from ParseSystemInfoMessage_third_argument [OF 1 2 3 4]
  have "ParseSystemInfoMessage example_Unmarshal ?msg = Inr [machine ''rig'' [0, 1]]"
    and "ParseSystemInfoMessage example_Unmarshal
       (?msg\<lparr>Host := ''other'', Arguments := [None, Some ''m2'', Some ''rig'']\<rparr>) =
       Inr [machine ''rig'' [0, 1]]"
    by blast+
  then show ?thesis by simp
qed

section \<open>Facts about the session\<close>

lemma wrap64_id: "- (2 ^ 63) \<le> x \<Longrightarrow> x < 2 ^ 63 \<Longrightarrow> wrap64 x = x"
  by (simp add: wrap64_def)

lemma wrap64_add: "wrap64 (wrap64 x + y) = wrap64 (x + y)"
proof -
  have "(wrap64 x + y + 2 ^ 63) mod 2 ^ 64 = ((x + 2 ^ 63) mod 2 ^ 64 + y) mod (2 ^ 64 :: int)"
    by (simp add: wrap64_def)
  also have "\<dots> = (x + 2 ^ 63 + y) mod 2 ^ 64"
    by (rule mod_add_left_eq)
  also have "x + 2 ^ 63 + y = x + y + 2 ^ 63"
    by simp
  finally have "(wrap64 x + y + 2 ^ 63) mod 2 ^ 64 = (x + y + 2 ^ 63) mod (2 ^ 64 :: int)" .
  then show ?thesis
    by (simp only: wrap64_def [of "wrap64 x + y"] wrap64_def [of "x + y"])
qed

lemma wrap64_range: "- (2 ^ 63) \<le> wrap64 x \<and> wrap64 x < 2 ^ 63"
proof -
  have "0 \<le> (x + 2 ^ 63) mod (2 ^ 64 :: int)" "(x + 2 ^ 63) mod (2 ^ 64 :: int) < 2 ^ 64"
    by simp_all
  then show ?thesis
    by (simp add: wrap64_def)
qed

lemma initial_nonce_range:
  "- 9223372036854 \<le> initial_nonce clock \<and> initial_nonce clock \<le> 9223372036854"
proof -
  define a where "a = wrap64 clock"
  have a: "- 9223372036854775808 \<le> a" "a < 9223372036854775808"
    using wrap64_range [of clock] by (simp_all add: a_def)
  have "- 9223372036854 \<le> go_quo a 1000000 \<and> go_quo a 1000000 \<le> 9223372036854"
  proof (cases "0 \<le> a")
    case True
    with a show ?thesis by (simp add: go_quo_def) linarith
  next
    case False
    with a show ?thesis by (simp add: go_quo_def) linarith
  qed
  then show ?thesis
    by (simp add: initial_nonce_def a_def)
qed

lemma ping_loop_nonces:
  "i < length (nonces (ping_loop c tok host n sched)) \<Longrightarrow>
   nonces (ping_loop c tok host n sched) ! i = wrap64 (n + 1 + int i)"
proof (induction c tok host n sched arbitrary: i rule: ping_loop.induct)
  case (1 c tok host n)
  then show ?case by simp
next
  case (2 c tok host n sched)
  then show ?case by simp
next
  case (3 c tok host n received sched)
  show ?case
  proof (cases i)
    case 0
    then show ?thesis by simp
  next
    case (Suc k)
    let ?n = "wrap64 (n + 1)"
    from "3.prems" Suc
    have k: "k < length (nonces (ping_loop c tok host ?n sched))"
      and eq: "nonces (ping_loop c tok host n (ChoseTick received # sched)) ! i =
               nonces (ping_loop c tok host ?n sched) ! k"
      by (auto split: option.splits if_splits)
    have "nonces (ping_loop c tok host ?n sched) ! k = wrap64 (?n + 1 + int k)"
    proof (cases "ping c ?n tok host")
      case None
      from "3.IH"(1) [OF None k] show ?thesis .
    next
      case (Some e)
      with "3.prems" Suc have "received"
        by (auto split: if_splits)
      from "3.IH"(2) [OF Some this k] show ?thesis .
    qed
    also have "\<dots> = wrap64 (n + 1 + (1 + int k))"
      using wrap64_add [of "n + 1" "1 + int k"] by (simp add: add.assoc)
    finally show ?thesis
      using eq Suc by (simp add: add.commute)
  qed
qed

lemma ping_loop_kinds:
  "nonce_calls (ping_loop c tok host n sched) =
   replicate (length (nonces (ping_loop c tok host n sched))) KPing"
  by (induction c tok host n sched rule: ping_loop.induct)
     (auto simp: nonce_calls_def split: option.splits)

lemma nonces_append: "nonces (xs @ ys) = nonces xs @ nonces ys"
  by (induction xs) (auto split: option.splits)

lemma nonce_calls_append: "nonce_calls (xs @ ys) = nonce_calls xs @ nonce_calls ys"
  by (simp add: nonce_calls_def)

lemma newWebsocketClient_cases:
  fixes c clock
  defines "t \<equiv> initial_nonce clock"
  obtains
    (at_auth2) e where "newWebsocketClient c clock = ([CallAuth2], Inl e)"
  | (at_negotiate) tok host e where
      "newWebsocketClient c clock = ([CallAuth2, CallNegotiate t tok host], Inl e)"
  | (at_connect) tok host k e where
      "newWebsocketClient c clock =
         ([CallAuth2, CallNegotiate t tok host, CallConnect tok host k], Inl e)"
  | (at_start) tok host k e where
      "newWebsocketClient c clock =
         ([CallAuth2, CallNegotiate t tok host, CallConnect tok host k,
           CallStart (wrap64 (t + 1)) tok host k], Inl e)"
  | (running) tok host k where
      "newWebsocketClient c clock =
         ([CallAuth2, CallNegotiate t tok host, CallConnect tok host k,
           CallStart (wrap64 (t + 1)) tok host k], Inr (wrap64 (t + 1), tok, host))"
proof (cases "auth2 c")
  case (Inl e)
  then show ?thesis
    using at_auth2 by (simp add: newWebsocketClient_def Let_def)
next
  case a: (Inr a)
  show ?thesis
  proof (cases "negotiate c t (Auth2Token a) (Auth2Host a)")
    case (Inl e)
    with a show ?thesis
      using at_negotiate by (simp add: newWebsocketClient_def t_def Let_def)
  next
    case n: (Inr r)
    show ?thesis
    proof (cases "connect c (Auth2Token a) (Auth2Host a) (ConnectionToken r)")
      case (Some e)
      with a n show ?thesis
        using at_connect by (simp add: newWebsocketClient_def t_def Let_def)
    next
      case None
      show ?thesis
      proof (cases "start c (wrap64 (t + 1)) (Auth2Token a) (Auth2Host a) (ConnectionToken r)")
        case (Some e)
        with a n None show ?thesis
          using at_start by (simp add: newWebsocketClient_def t_def Let_def)
      next
        case s: None
        with a n None show ?thesis
          using running by (simp add: newWebsocketClient_def t_def Let_def)
      qed
    qed
  qed
qed

lemma session_calls_shape:
  fixes c clock sched
  defines "calls \<equiv> session_calls c clock sched"
    and "t \<equiv> initial_nonce clock"
  obtains
    (no_nonce) "nonces calls = []" "nonce_calls calls = []"
  | (negotiated) "nonces calls = [t]" "nonce_calls calls = [KNegotiate]"
  | (started) tok host where
      "nonces calls = t # wrap64 (t + 1) # nonces (ping_loop c tok host (wrap64 (t + 1)) sched)"
      "nonce_calls calls =
         KNegotiate # KStart # nonce_calls (ping_loop c tok host (wrap64 (t + 1)) sched)"
  | (start_failed) "nonces calls = [t, wrap64 (t + 1)]" "nonce_calls calls = [KNegotiate, KStart]"
proof (cases rule: newWebsocketClient_cases [of c clock])
  case (at_auth2 e)
  then show ?thesis
    using no_nonce by (simp add: calls_def session_calls_def nonce_calls_def)
next
  case (at_negotiate tok host e)
  then show ?thesis
    using negotiated by (simp add: calls_def t_def session_calls_def nonce_calls_def)
next
  case (at_connect tok host k e)
  then show ?thesis
    using negotiated by (simp add: calls_def t_def session_calls_def nonce_calls_def)
next
  case (at_start tok host k e)
  then show ?thesis
    using start_failed
    by (simp add: calls_def t_def session_calls_def nonce_calls_def)
next
  case (running tok host k)
  then show ?thesis
    using started [of tok host]
    by (simp add: calls_def t_def session_calls_def nonce_calls_def nonces_append)
qed

lemma session_nonce_at:
  assumes "i < length (nonces (session_calls c clock sched))"
  shows "nonces (session_calls c clock sched) ! i = wrap64 (initial_nonce clock + int i) \<and>
    nonce_calls (session_calls c clock sched) ! i =
      (if i = 0 then KNegotiate else if i = 1 then KStart else KPing)"
proof -
  let ?t = "initial_nonce clock"
  have t0: "wrap64 ?t = ?t"
    using initial_nonce_range [of clock] by (intro wrap64_id) simp_all
  show ?thesis
  proof (cases rule: session_calls_shape [of c clock sched])
    case no_nonce
    with assms show ?thesis by simp
  next
    case negotiated
    with assms show ?thesis by (simp add: t0)
  next
    case start_failed
    with assms show ?thesis by (cases i) (simp_all add: t0)
  next
    case (started tok host)
    let ?p = "ping_loop c tok host (wrap64 (?t + 1)) sched"
    show ?thesis
    proof (cases "i < 2")
      case True
      then have "i = 0 \<or> i = 1" by auto
      with started show ?thesis by (auto simp: t0)
    next
      case False
      then obtain k where k: "i = Suc (Suc k)"
        by (metis One_nat_def Suc_1 not_less_eq not0_implies_Suc not_less_zero)
      with assms started have kl: "k < length (nonces ?p)"
        by simp
      have "nonces ?p ! k = wrap64 (wrap64 (?t + 1) + 1 + int k)"
        by (rule ping_loop_nonces [OF kl])
      also have "\<dots> = wrap64 (?t + 1 + (1 + int k))"
        using wrap64_add [of "?t + 1" "1 + int k"] by (simp add: add.assoc)
      also have "?t + 1 + (1 + int k) = ?t + int i"
        using k by simp
      finally have n: "nonces (session_calls c clock sched) ! i = wrap64 (?t + int i)"
        using started k by simp
      have "nonce_calls ?p ! k = KPing"
        using kl by (simp add: ping_loop_kinds)
      then have "nonce_calls (session_calls c clock sched) ! i = KPing"
        using started k by simp
      with n k show ?thesis by simp
    qed
  qed
qed

lemma session_kinds_length:
  "length (nonce_calls (session_calls c clock sched)) =
   length (nonces (session_calls c clock sched))"
  by (cases rule: session_calls_shape [of c clock sched]) (simp_all add: ping_loop_kinds)

lemma increasing_from:
  fixes ns :: "int list"
  assumes "\<forall>i < length ns. ns ! i = t + int i"
  shows "sorted_wrt (<) ns \<and> distinct ns"
proof -
  have "sorted_wrt (<) ns"
    using assms by (simp add: sorted_wrt_iff_nth_less)
  moreover have "distinct ns"
    using assms by (simp add: distinct_conv_nth)
  ultimately show ?thesis by simp
qed

lemma session_nonce_values:
  "length (nonce_calls (session_calls c clock sched)) =
     length (nonces (session_calls c clock sched)) \<and>
   (\<forall>i < length (nonces (session_calls c clock sched)).
      nonces (session_calls c clock sched) ! i = wrap64 (initial_nonce clock + int i) \<and>
      nonce_calls (session_calls c clock sched) ! i =
        (if i = 0 then KNegotiate else if i = 1 then KStart else KPing)) \<and>
   (initial_nonce clock + int (length (nonces (session_calls c clock sched))) \<le> 2 ^ 63 \<longrightarrow>
      (\<forall>i < length (nonces (session_calls c clock sched)).
         nonces (session_calls c clock sched) ! i = initial_nonce clock + int i) \<and>
      sorted_wrt (<) (nonces (session_calls c clock sched)) \<and>
      distinct (nonces (session_calls c clock sched))) \<and>
   (length (nonces (session_calls c clock sched)) \<le> 2 ^ 62 \<longrightarrow>
      initial_nonce clock + int (length (nonces (session_calls c clock sched))) \<le> 2 ^ 63)"
proof (intro conjI allI impI)
  show "length (nonce_calls (session_calls c clock sched)) =
     length (nonces (session_calls c clock sched))"
    by (rule session_kinds_length)
next
  fix i
  assume "i < length (nonces (session_calls c clock sched))"
  from session_nonce_at [OF this]
  show "nonces (session_calls c clock sched) ! i = wrap64 (initial_nonce clock + int i)"
    and "nonce_calls (session_calls c clock sched) ! i =
        (if i = 0 then KNegotiate else if i = 1 then KStart else KPing)"
    by simp_all
next
  assume len: "initial_nonce clock + int (length (nonces (session_calls c clock sched))) \<le> 2 ^ 63"
  have exact: "\<forall>i < length (nonces (session_calls c clock sched)).
      nonces (session_calls c clock sched) ! i = initial_nonce clock + int i"
  proof (intro allI impI)
    fix i
    assume i: "i < length (nonces (session_calls c clock sched))"
    with len have "initial_nonce clock + int i < 2 ^ 63"
      by simp
    moreover have "- (2 ^ 63) \<le> initial_nonce clock + int i"
      using initial_nonce_range [of clock] by simp
    ultimately have "wrap64 (initial_nonce clock + int i) = initial_nonce clock + int i"
      by (intro wrap64_id)
    with session_nonce_at [OF i]
    show "nonces (session_calls c clock sched) ! i = initial_nonce clock + int i"
      by simp
  qed
  {
    fix i
    assume "i < length (nonces (session_calls c clock sched))"
    with exact show "nonces (session_calls c clock sched) ! i = initial_nonce clock + int i"
      by simp
  }
  from increasing_from [OF exact]
  show "sorted_wrt (<) (nonces (session_calls c clock sched))"
    and "distinct (nonces (session_calls c clock sched))"
    by simp_all
next
  assume "length (nonces (session_calls c clock sched)) \<le> 2 ^ 62"
  then have "int (length (nonces (session_calls c clock sched))) \<le> 2 ^ 62"
    by (metis of_nat_le_iff of_nat_numeral of_nat_power)
  then show "initial_nonce clock + int (length (nonces (session_calls c clock sched))) \<le> 2 ^ 63"
    using initial_nonce_range [of clock] by simp
qed

lemma initial_nonce_millis:
  "(0 \<le> clock \<and> clock < 2 ^ 63 \<longrightarrow>
      1000000 * initial_nonce clock \<le> clock \<and>
      clock < 1000000 * initial_nonce clock + 1000000) \<and>
   (- (2 ^ 63) \<le> clock \<and> clock < 0 \<longrightarrow>
      clock \<le> 1000000 * initial_nonce clock \<and>
      1000000 * initial_nonce clock - 1000000 < clock)"
proof (intro conjI impI)
  assume c: "0 \<le> clock \<and> clock < 2 ^ 63"
  then have "initial_nonce clock = clock div 1000000"
    by (simp add: initial_nonce_def go_quo_def wrap64_id)
  then show "1000000 * initial_nonce clock \<le> clock"
    and "clock < 1000000 * initial_nonce clock + 1000000"
    by linarith+
next
  assume c: "- (2 ^ 63) \<le> clock \<and> clock < 0"
  then have "initial_nonce clock = - ((- clock) div 1000000)"
    by (simp add: initial_nonce_def go_quo_def wrap64_id)
  then show "clock \<le> 1000000 * initial_nonce clock"
    and "1000000 * initial_nonce clock - 1000000 < clock"
    by linarith+
qed

lemma session_first_nonce:
  assumes "0 < length (nonces (session_calls c clock sched))"
  shows "nonces (session_calls c clock sched) ! 0 = initial_nonce clock"
proof -
  have "wrap64 (initial_nonce clock) = initial_nonce clock"
    using initial_nonce_range [of clock] by (intro wrap64_id) simp_all
  with session_nonce_at [OF assms] show ?thesis
    by simp
qed

text \<open>
  C6. Within one session, the calls that carry a nonce are, in order, negotiate, start
  and the pings. The first nonce is the initial timestamp \<open>t\<close>, the clock's nanoseconds
  divided by 1000000 and truncated towards zero (so \<open>1000000 t \<le> clock < 1000000 t +
  1000000\<close> for a clock at or after the epoch), and the \<open>i\<close>-th nonce (from 0) is
  \<open>t + i\<close> in \<open>int64\<close> arithmetic. As long as that sum stays in the range of \<open>int64\<close>,
  which the first \<open>2^62\<close> calls of any session do, the nonces are exactly
  \<open>t, t+1, t+2, ...\<close>: strictly increasing and never reused.
\<close>

theorem session_nonce_sequence:
  "length (nonce_calls (session_calls c clock sched)) =
     length (nonces (session_calls c clock sched)) \<and>
   (\<forall>i < length (nonces (session_calls c clock sched)).
      nonces (session_calls c clock sched) ! i = wrap64 (initial_nonce clock + int i) \<and>
      nonce_calls (session_calls c clock sched) ! i =
        (if i = 0 then KNegotiate else if i = 1 then KStart else KPing)) \<and>
   (initial_nonce clock + int (length (nonces (session_calls c clock sched))) \<le> 2 ^ 63 \<longrightarrow>
      (\<forall>i < length (nonces (session_calls c clock sched)).
         nonces (session_calls c clock sched) ! i = initial_nonce clock + int i) \<and>
      sorted_wrt (<) (nonces (session_calls c clock sched)) \<and>
      distinct (nonces (session_calls c clock sched))) \<and>
   (length (nonces (session_calls c clock sched)) \<le> 2 ^ 62 \<longrightarrow>
      initial_nonce clock + int (length (nonces (session_calls c clock sched))) \<le> 2 ^ 63) \<and>
   (0 < length (nonces (session_calls c clock sched)) \<longrightarrow>
      nonces (session_calls c clock sched) ! 0 = initial_nonce clock) \<and>
   (0 \<le> clock \<and> clock < 2 ^ 63 \<longrightarrow>
      1000000 * initial_nonce clock \<le> clock \<and>
      clock < 1000000 * initial_nonce clock + 1000000) \<and>
   (- (2 ^ 63) \<le> clock \<and> clock < 0 \<longrightarrow>
      clock \<le> 1000000 * initial_nonce clock \<and>
      1000000 * initial_nonce clock - 1000000 < clock)"
  using session_nonce_values [of c clock sched] session_first_nonce [of c clock sched]
    initial_nonce_millis [of clock]
  by (intro conjI) blast+

lemma wrap64_step: "wrap64 (wrap64 (n + 1) + 1 + int i) = wrap64 (n + 1 + int (Suc i))"
proof -
  have "wrap64 (wrap64 (n + 1) + (1 + int i)) = wrap64 (n + 1 + (1 + int i))"
    by (rule wrap64_add)
  then show ?thesis
    by (simp add: add.assoc)
qed

lemma ping_loop_ticks:
  "\<forall>n t h. ping c n t h = None \<Longrightarrow>
   ping_loop c tok host n (replicate k (ChoseTick r) @ [ChoseClosed]) =
     map (\<lambda>i. CallPing (wrap64 (n + 1 + int i)) tok host) [0..<k]"
proof (induction k arbitrary: n)
  case 0
  then show ?case by simp
next
  case (Suc k)
  have "map (\<lambda>i. CallPing (wrap64 (n + 1 + int i)) tok host) [0..<Suc k] =
      CallPing (wrap64 (n + 1)) tok host #
      map (\<lambda>i. CallPing (wrap64 (n + 1 + int (Suc i))) tok host) [0..<k]"
    by (simp add: upt_conv_Cons map_Suc_upt [symmetric] del: upt_Suc)
  also have "map (\<lambda>i. CallPing (wrap64 (n + 1 + int (Suc i))) tok host) [0..<k] =
      map (\<lambda>i. CallPing (wrap64 (wrap64 (n + 1) + 1 + int i)) tok host) [0..<k]"
    by (simp only: wrap64_step)
  finally show ?case
    using Suc by simp
qed

theorem session_nonce_sequence_witness:
  "nonces (session_calls example_client 1700000000123456789
     [ChoseTick True, ChoseTick True, ChoseClosed]) =
     [1700000000123, 1700000000124, 1700000000125, 1700000000126] \<and>
   nonce_calls (session_calls example_client 1700000000123456789
     [ChoseTick True, ChoseTick True, ChoseClosed]) = [KNegotiate, KStart, KPing, KPing] \<and>
   sorted_wrt (<) (nonces (session_calls example_client 1700000000123456789
     [ChoseTick True, ChoseTick True, ChoseClosed])) \<and>
   distinct (nonces (session_calls example_client 1700000000123456789
     [ChoseTick True, ChoseTick True, ChoseClosed])) \<and>
   1000000 * initial_nonce 1700000000123456789 \<le> 1700000000123456789 \<and>
   1700000000123456789 < 1000000 * initial_nonce 1700000000123456789 + 1000000 \<and>
   - 1700000000123456789 \<le> 1000000 * initial_nonce (- 1700000000123456789) \<and>
   1000000 * initial_nonce (- 1700000000123456789) - 1000000 < - 1700000000123456789"
proof -
  let ?calls = "session_calls example_client 1700000000123456789
     [ChoseTick True, ChoseTick True, ChoseClosed]"
  have n: "nonces ?calls = [1700000000123, 1700000000124, 1700000000125, 1700000000126]"
    by (simp add: session_calls_def newWebsocketClient_def example_client_def
        initial_nonce_def go_quo_def wrap64_def Let_def)
  have k: "nonce_calls ?calls = [KNegotiate, KStart, KPing, KPing]"
    by (simp add: session_calls_def newWebsocketClient_def example_client_def
        initial_nonce_def go_quo_def wrap64_def nonce_calls_def Let_def)
  have "initial_nonce 1700000000123456789 + int (length (nonces ?calls)) \<le> 2 ^ 63"
    by (simp add: n initial_nonce_def go_quo_def wrap64_def)
  with session_nonce_sequence [of example_client 1700000000123456789
      "[ChoseTick True, ChoseTick True, ChoseClosed]"]
  have s: "sorted_wrt (<) (nonces ?calls) \<and> distinct (nonces ?calls)"
    by blast
  have "(0::int) \<le> 1700000000123456789 \<and> (1700000000123456789::int) < 2 ^ 63"
    by simp
  with session_nonce_sequence [of example_client 1700000000123456789
      "[ChoseTick True, ChoseTick True, ChoseClosed]"]
  have p: "1000000 * initial_nonce 1700000000123456789 \<le> 1700000000123456789 \<and>
      1700000000123456789 < 1000000 * initial_nonce 1700000000123456789 + 1000000"
    by blast
  have "- (2 ^ 63) \<le> (- 1700000000123456789 :: int) \<and> (- 1700000000123456789 :: int) < 0"
    by simp
  with session_nonce_sequence [of example_client "- 1700000000123456789" "[]"]
  have m: "- 1700000000123456789 \<le> 1000000 * initial_nonce (- 1700000000123456789) \<and>
      1000000 * initial_nonce (- 1700000000123456789) - 1000000 < - 1700000000123456789"
    by blast
  from n k s p m show ?thesis
    by simp
qed

section \<open>Facts about closing\<close>

lemma close_when_closed: "closed c = Closed \<Longrightarrow> close c = Some (Returns c)"
  by (simp add: close_def)

lemma close_when_open:
  assumes "closed c = Open" and "close c = Some (Returns c')"
  shows "c' = c\<lparr>closed := Closed, pinger := Finished, keepalive := Finished,
                ws_closed := True, err := Closed\<rparr> \<and>
    err c = Open \<and> pinger c \<noteq> SendingErr \<and> keepalive c \<noteq> SendingErr"
  using assms
  by (auto simp: close_def close_chan_def wg_Wait_def split: chan.splits if_splits)

lemma session_closed_is_torn_down:
  "session c \<Longrightarrow> closed c = Closed \<Longrightarrow>
   err c = Closed \<and> pinger c = Finished \<and> keepalive c = Finished \<and> ws_closed c"
proof (induction rule: session.induct)
  case session_new
  then show ?case by (simp add: new_client_def)
next
  case (session_ping_failed c)
  then show ?case by auto
next
  case (session_keepalive_failed c)
  then show ?case by auto
next
  case (session_ping_err_read c)
  then show ?case by auto
next
  case (session_keepalive_err_read c)
  then show ?case by auto
next
  case (session_close c c')
  show ?case
  proof (cases "closed c")
    case Open
    from close_when_open [OF Open session_close.hyps(2)] show ?thesis
      by simp
  next
    case Closed
    with session_close.hyps(2) have "c' = c"
      by (simp add: close_when_closed)
    with session_close.IH Closed show ?thesis
      by simp
  qed
qed

lemma session_close_never_panics: "session c \<Longrightarrow> close c \<noteq> Some Panics"
proof
  assume s: "session c" and p: "close c = Some Panics"
  show False
  proof (cases "closed c")
    case Closed
    with p show False by (simp add: close_when_closed)
  next
    case Open
    with p have "err c = Closed"
      by (auto simp: close_def close_chan_def wg_Wait_def split: chan.splits if_splits)
    moreover have "err c = Open"
      using s Open
    proof (induction rule: session.induct)
      case (session_close c c')
      show ?case
      proof (cases "closed c")
        case Open
        from close_when_open [OF Open session_close.hyps(2)] session_close.prems
        show ?thesis by simp
      next
        case Closed
        with session_close.hyps(2) have "c' = c"
          by (simp add: close_when_closed)
        with session_close show ?thesis by simp
      qed
    qed (auto simp: new_client_def)
    ultimately show False by simp
  qed
qed

text \<open>
  C9. For every state a session reaches, when a call of \<open>close\<close> has returned, a
  second call returns as well, does not panic and leaves the client exactly as it was
  (it takes the early return, so neither channel is closed again); both goroutines
  have returned by then.
\<close>

theorem close_twice:
  assumes "session c" and "close c = Some (Returns c')"
  shows "close c' = Some (Returns c') \<and>
    closed c' = Closed \<and> err c' = Closed \<and>
    pinger c' = Finished \<and> keepalive c' = Finished"
proof -
  have s': "session c'"
    using assms by (rule session_close)
  have cl: "closed c' = Closed"
  proof (cases "closed c")
    case Open
    from close_when_open [OF Open assms(2)] show ?thesis by simp
  next
    case Closed
    with assms(2) show ?thesis by (simp add: close_when_closed)
  qed
  from session_closed_is_torn_down [OF s' cl] cl close_when_closed [OF cl]
  show ?thesis by simp
qed

theorem close_twice_witness:
  "session new_client \<and>
   close new_client =
     Some (Returns \<lparr>closed = Closed, err = Closed, ws_closed = True,
                    pinger = Finished, keepalive = Finished\<rparr>) \<and>
   close \<lparr>closed = Closed, err = Closed, ws_closed = True,
          pinger = Finished, keepalive = Finished\<rparr> =
     Some (Returns \<lparr>closed = Closed, err = Closed, ws_closed = True,
                    pinger = Finished, keepalive = Finished\<rparr>)"
proof -
  let ?c' = "\<lparr>closed = Closed, err = Closed, ws_closed = True,
               pinger = Finished, keepalive = Finished\<rparr>"
  have 1: "session new_client"
    by (rule session_new)
  have 2: "close new_client = Some (Returns ?c')"
    by (simp add: close_def close_chan_def wg_Wait_def new_client_def)
  from close_twice [OF 1 2] 1 2 show ?thesis
    by simp
qed

lemma close_blocks_on_pending_error:
  "closed c = Open \<Longrightarrow> pinger c = SendingErr \<or> keepalive c = SendingErr \<Longrightarrow> close c = None"
  by (auto simp: close_def close_chan_def wg_Wait_def)

end
